theory Spec2Isabelle
  imports Main "HOL-Library.Word" "HOL-Library.Multiset"
begin

unbundle bit_operations_syntax

section \<open>Data model\<close>

text \<open>
  The embedding follows \<^verbatim>\<open>be/src/exec/hdfs-scanner.cc\<close>. Objects the scanner reaches
  through pointers (scan node, runtime state, scanner context, stream, row batch) are
  records holding the values the scanner reads and the state it changes. Memory is held
  by content: a tuple is its bytes, a row is the tuples it references.
  \<^verbatim>\<open>DCHECK\<close> failures and null dereferences are error results.
\<close>

type_synonym byte = "8 word"
type_synonym Tuple = "byte list"
type_synonym TupleRow = "Tuple option list"

datatype error = DCheckFailed string | NullPointer

datatype Status = OK | CANCELLED | Error string

definition ok :: "Status \<Rightarrow> bool" where
  "ok st = (st = OK)"

text \<open>\<^verbatim>\<open>FieldLocation\<close>: \<open>start\<close> is the memory the pointer refers to, \<open>len\<close> a C \<^verbatim>\<open>int\<close>.\<close>

record FieldLocation =
  start :: string
  len :: "32 word"

datatype PrimitiveType =
  TYPE_BOOLEAN | TYPE_TINYINT | TYPE_SMALLINT | TYPE_INT | TYPE_BIGINT
  | TYPE_FLOAT | TYPE_DOUBLE | TYPE_TIMESTAMP | TYPE_STRING

record SlotDescriptor =
  slot_type :: PrimitiveType
  col_pos :: int

text \<open>
  A conjunct: its interpreted evaluation on a row, its compiled form (\<^verbatim>\<open>codegen_fn()\<close>,
  \<open>None\<close> for \<^verbatim>\<open>NULL\<close>) and its scratch buffer size.
\<close>

record Expr =
  eval :: "TupleRow \<Rightarrow> bool"
  codegen_fn :: "(TupleRow \<Rightarrow> bool) option"
  scratch_buffer_size :: int

text \<open>
  \<^verbatim>\<open>TextConverter::WriteSlot(desc, tuple, data, len, copy_string, need_escape, pool)\<close>
  is outside this file: it is a parameter returning success and the tuple it wrote. The
  memory pool it may allocate from is part of that opaque function.
\<close>

record TextConverter =
  WriteSlot :: "SlotDescriptor \<Rightarrow> Tuple \<Rightarrow> string \<Rightarrow> 32 word \<Rightarrow> bool \<Rightarrow> bool \<Rightarrow> bool \<times> Tuple"

text \<open>A compiled slot writer, called as \<^verbatim>\<open>slot_fn(tuple, data, len)\<close>.\<close>

type_synonym slot_fn = "Tuple \<Rightarrow> string \<Rightarrow> 32 word \<Rightarrow> bool \<times> Tuple"

text \<open>
  The function built by \<^verbatim>\<open>CodegenWriteCompleteTuple\<close>: how it initialises the tuple, and
  its chain of parse blocks. A block materialises its slots and then either evaluates
  one conjunct and branches (to the next block, or to \<^verbatim>\<open>eval_fail\<close>), or stores the
  error flag and returns true.
\<close>

datatype init_code = ZeroNullBytes nat | MemcpyTemplate nat

datatype parse_block = RetTrue "nat list" | CondBr "nat list" nat parse_block

record llvm_function =
  fn_init :: init_code
  fn_tuple_idx :: nat
  fn_slot_fns :: "slot_fn list"
  fn_conjunct_fns :: "(TupleRow \<Rightarrow> bool) list"
  fn_body :: parse_block

text \<open>
  A call site of the batch-level routine \<^verbatim>\<open>WriteAlignedTuples\<close>: a call to a named
  function, or a call already replaced by a generated function.
\<close>

datatype call_site = CallNamed string | CallFn llvm_function

record ir_function =
  call_sites :: "call_site list"

record RowBatch =
  capacity :: int
  num_rows :: int
  rows :: "TupleRow list"
  at_resource_limit :: bool

record RuntimeState =
  batch_size :: int
  abort_on_error :: bool
  error_log :: "string list"
  max_errors :: nat
  query_status :: Status
  file_errors :: "(string \<times> int) list"

record ScannerContext =
  cancelled :: bool
  completed_resources :: "(RowBatch \<times> bool) list"
  filename :: string
  stream_compact_data :: bool

text \<open>
  \<^verbatim>\<open>HdfsScanNode\<close> with its tuple descriptor. \<open>materialize_order\<close> is what
  \<^verbatim>\<open>ComputeSlotMaterializationOrder\<close> returns, \<open>node_codegen_fn\<close> what \<^verbatim>\<open>GetCodegenFn\<close>
  returns, \<open>node_conjuncts\<close> what \<^verbatim>\<open>GetConjuncts\<close> returns, \<open>node_template_tuple\<close>
  what \<^verbatim>\<open>InitTemplateTuple\<close> returns and \<open>tuples_per_row\<close> the width of a row of
  \<^verbatim>\<open>row_desc()\<close>.
\<close>

record HdfsScanNode =
  materialized_slots :: "SlotDescriptor list"
  string_slots :: "SlotDescriptor list"
  byte_size :: nat
  num_null_bytes :: nat
  compact_data :: bool
  num_materialized_partition_keys :: nat
  num_partition_keys :: int
  tuple_idx :: nat
  tuples_per_row :: nat
  materialize_order :: "nat list"
  node_conjuncts :: "Expr list"
  node_template_tuple :: "Tuple option"
  node_codegen_fn :: "ir_function option"
  materialized_row_batches :: "RowBatch list"
  num_scanners_codegen_enabled :: int
  num_scanners_codegen_disabled :: int

text \<open>
  The scanner. A member \<^verbatim>\<open>x_\<close> of the class is the field \<open>x\<close> (\<^verbatim>\<open>context_\<close> is
  \<open>scanner_context\<close>, \<^verbatim>\<open>codegen_fn_\<close> is \<open>scanner_codegen_fn\<close>). The stream is the one of
  the context, so its file name and its \<^verbatim>\<open>compact_data()\<close> are fields of the context.
  The members that cache values of the scan node (\<^verbatim>\<open>num_conjuncts_\<close>,
  \<^verbatim>\<open>tuple_byte_size_\<close>, \<^verbatim>\<open>num_null_bytes_\<close>) are read from the scan node. \<open>tuple_mem\<close> is
  the offset of the write cursor in the block that \<^verbatim>\<open>StartNewRowBatch\<close> allocates for the
  current batch. Counters and sizes that are C \<^verbatim>\<open>int\<close>s are unbounded integers; the
  length of a field, whose sign carries meaning, is a 32-bit word.
\<close>

record HdfsScanner =
  scan_node :: HdfsScanNode
  state :: RuntimeState
  scanner_context :: ScannerContext
  text_converter :: TextConverter
  conjuncts :: "Expr list option"
  template_tuple :: "Tuple option"
  scanner_codegen_fn :: "ir_function option"
  write_tuples_fn :: "ir_function option"
  tuple_mem :: int
  batch :: "RowBatch option"
  num_errors_in_file :: int
  parse_status :: Status

text \<open>The buffers \<^verbatim>\<open>WriteCompleteTuple\<close> writes through its pointer arguments.\<close>

record wct_mem =
  tuple :: Tuple
  tuple_row :: TupleRow
  error_fields :: "byte list"
  error_in_row :: byte

section \<open>Helpers declared outside this file\<close>

text \<open>
  Modelled from the spec: \<^verbatim>\<open>ExecNode::EvalConjuncts\<close> (exec/exec-node.h) is true iff
  every predicate of the ordered list accepts the row.
\<close>

definition EvalConjuncts :: "Expr list \<Rightarrow> TupleRow \<Rightarrow> bool" where
  "EvalConjuncts cs row = list_all (\<lambda>c. eval c row) cs"

text \<open>Modelled from the spec: \<^verbatim>\<open>TupleRow::SetTuple\<close> stores a tuple reference at an index.\<close>

definition SetTuple :: "nat \<Rightarrow> Tuple \<Rightarrow> TupleRow \<Rightarrow> TupleRow" where
  "SetTuple idx t row = row[idx := Some t]"

text \<open>
  Modelled from the spec: \<^verbatim>\<open>HdfsScanner::InitTuple\<close> (exec/hdfs-scanner.h) copies the
  template tuple when there is one, and otherwise zeroes the null-indicator bytes.
  \<open>memset0\<close> and \<open>memcpy\<close> write the first \<open>n\<close> bytes of a buffer that holds at least
  \<open>n\<close> bytes.
\<close>

definition memset0 :: "nat \<Rightarrow> Tuple \<Rightarrow> Tuple" where
  "memset0 n t = replicate n 0 @ drop n t"

definition memcpy :: "nat \<Rightarrow> Tuple \<Rightarrow> Tuple \<Rightarrow> Tuple" where
  "memcpy n src dst = take n src @ drop n dst"

definition InitTuple :: "HdfsScanner \<Rightarrow> Tuple option \<Rightarrow> Tuple \<Rightarrow> Tuple" where
  "InitTuple s tmpl t =
     (case tmpl of
        Some tpl \<Rightarrow> memcpy (byte_size (scan_node s)) tpl t
      | None \<Rightarrow> memset0 (num_null_bytes (scan_node s)) t)"

section \<open>The interpreted tuple writer\<close>

text \<open>One iteration of the slot loop of \<^verbatim>\<open>WriteCompleteTuple\<close>.\<close>

definition write_slot_step :: "HdfsScanner \<Rightarrow> FieldLocation list \<Rightarrow> nat \<Rightarrow> wct_mem \<Rightarrow> wct_mem" where
  "write_slot_step s flds i m =
     (let len0 = len (flds ! i);
          need_escape = (sint len0 < 0);
          l = (if sint len0 < 0 then - len0 else len0);
          desc = materialized_slots (scan_node s) ! i;
          (written, t') = WriteSlot (text_converter s) desc (tuple m) (start (flds ! i)) l
                            (stream_compact_data (scanner_context s)) need_escape;
          err = \<not> written
      in m\<lparr>tuple := t',
            error_fields := (error_fields m)[i := of_bool err],
            error_in_row := error_in_row m OR of_bool err\<rparr>)"

definition WriteCompleteTuple ::
  "HdfsScanner \<Rightarrow> FieldLocation list \<Rightarrow> Tuple option \<Rightarrow> wct_mem \<Rightarrow> error + (bool \<times> wct_mem)" where
  "WriteCompleteTuple s flds tmpl m =
     (let m0 = m\<lparr>error_in_row := 0\<rparr>;
          m1 = m0\<lparr>tuple := InitTuple s tmpl (tuple m0)\<rparr>;
          m2 = fold (write_slot_step s flds) [0..<length (materialized_slots (scan_node s))] m1;
          m3 = m2\<lparr>tuple_row := SetTuple (tuple_idx (scan_node s)) (tuple m2) (tuple_row m2)\<rparr>
      in case conjuncts s of
           None \<Rightarrow> Inl NullPointer
         | Some cs \<Rightarrow> Inr (EvalConjuncts cs (tuple_row m3), m3))"

text \<open>
  The tuple as the loop has left it before slot \<open>i\<close>, and whether the conversion of
  slot \<open>i\<close> fails there.
\<close>

definition mem_before :: "HdfsScanner \<Rightarrow> FieldLocation list \<Rightarrow> Tuple option \<Rightarrow> wct_mem \<Rightarrow> nat \<Rightarrow> wct_mem" where
  "mem_before s flds tmpl m i =
     fold (write_slot_step s flds) [0..<i]
       (m\<lparr>error_in_row := 0, tuple := InitTuple s tmpl (tuple m)\<rparr>)"

definition slot_fails :: "HdfsScanner \<Rightarrow> FieldLocation list \<Rightarrow> Tuple option \<Rightarrow> wct_mem \<Rightarrow> nat \<Rightarrow> bool" where
  "slot_fails s flds tmpl m i =
     (let f = flds ! i;
          l = (if sint (len f) < 0 then - len f else len f)
      in \<not> fst (WriteSlot (text_converter s) (materialized_slots (scan_node s) ! i)
                  (tuple (mem_before s flds tmpl m i)) (start f) l
                  (stream_compact_data (scanner_context s)) (sint (len f) < 0)))"

section \<open>The parse error reporter\<close>

text \<open>
  Modelled from the spec: the runtime state's log-capacity check, log-append and per-file
  error registration (runtime/runtime-state.h). The log takes a message while it holds
  fewer than \<open>max_errors\<close> entries.
\<close>

definition LogHasSpace :: "RuntimeState \<Rightarrow> bool" where
  "LogHasSpace st = (length (error_log st) < max_errors st)"

definition LogError :: "string \<Rightarrow> RuntimeState \<Rightarrow> RuntimeState" where
  "LogError msg st =
     (if length (error_log st) < max_errors st then st\<lparr>error_log := error_log st @ [msg]\<rparr> else st)"

definition ReportFileErrors :: "string \<Rightarrow> int \<Rightarrow> RuntimeState \<Rightarrow> RuntimeState" where
  "ReportFileErrors file_name n st = st\<lparr>file_errors := file_errors st @ [(file_name, n)]\<rparr>"

text \<open>Decimal output of an integer, and the printed name of a type, as \<^verbatim>\<open>operator<<\<close> gives them.\<close>

fun show_nat :: "nat \<Rightarrow> string" where
  "show_nat n =
     (if n < 10 then [''0123456789'' ! n] else show_nat (n div 10) @ [''0123456789'' ! (n mod 10)])"

definition show_int :: "int \<Rightarrow> string" where
  "show_int i = (if i < 0 then CHR ''-'' # show_nat (nat (- i)) else show_nat (nat i))"

fun TypeToString :: "PrimitiveType \<Rightarrow> string" where
  "TypeToString TYPE_BOOLEAN = ''BOOLEAN''"
| "TypeToString TYPE_TINYINT = ''TINYINT''"
| "TypeToString TYPE_SMALLINT = ''SMALLINT''"
| "TypeToString TYPE_INT = ''INT''"
| "TypeToString TYPE_BIGINT = ''BIGINT''"
| "TypeToString TYPE_FLOAT = ''FLOAT''"
| "TypeToString TYPE_DOUBLE = ''DOUBLE''"
| "TypeToString TYPE_TIMESTAMP = ''TIMESTAMP''"
| "TypeToString TYPE_STRING = ''STRING''"

text \<open>
  The text \<^verbatim>\<open>ReportColumnParseError\<close> builds in its string stream;
  \<^verbatim>\<open>string(data, len)\<close> is the first \<open>len\<close> bytes at \<open>data\<close>.
\<close>

definition column_error_text :: "HdfsScanner \<Rightarrow> SlotDescriptor \<Rightarrow> string \<Rightarrow> 32 word \<Rightarrow> string" where
  "column_error_text s desc data l =
     ''Error converting column: ''
       @ show_int (col_pos desc - num_partition_keys (scan_node s))
       @ '' TO '' @ TypeToString (slot_type desc)
       @ '' (Data is: '' @ take (nat (sint l)) data @ '')''"

definition ReportColumnParseError ::
  "SlotDescriptor \<Rightarrow> string \<Rightarrow> 32 word \<Rightarrow> HdfsScanner \<Rightarrow> HdfsScanner" where
  "ReportColumnParseError desc data len0 s =
     (let l = (if sint len0 < 0 then - len0 else len0)
      in if LogHasSpace (state s) \<or> abort_on_error (state s) then
           (let ss = column_error_text s desc data l;
                s1 = (if LogHasSpace (state s) then s\<lparr>state := LogError ss (state s)\<rparr> else s);
                s2 = (if abort_on_error (state s1) \<and> ok (parse_status s1)
                      then s1\<lparr>parse_status := Error ss\<rparr> else s1)
            in s2)
         else s)"

text \<open>
  \<^verbatim>\<open>LogRowParseError\<close> of the base class; the text and sequence scanners override it,
  so \<^verbatim>\<open>ReportTupleParseError\<close> takes the override as \<open>log_row\<close>: the text it appends
  for a row.
\<close>

definition LogRowParseError :: "int \<Rightarrow> error + string" where
  "LogRowParseError row_idx = Inl (DCheckFailed ''false'')"

text \<open>One iteration of the flag loop of \<^verbatim>\<open>ReportTupleParseError\<close>.\<close>

definition report_slot_step ::
  "FieldLocation list \<Rightarrow> nat \<Rightarrow> byte list \<times> HdfsScanner \<Rightarrow> byte list \<times> HdfsScanner" where
  "report_slot_step flds i es =
     (case es of (errors, s) \<Rightarrow>
        if errors ! i \<noteq> 0 then
          (errors[i := 0],
           ReportColumnParseError (materialized_slots (scan_node s) ! i)
             (start (flds ! i)) (len (flds ! i)) s)
        else (errors, s))"

definition row_error_text :: "HdfsScanner \<Rightarrow> string \<Rightarrow> string" where
  "row_error_text s record_text =
     ''file: '' @ filename (scanner_context s) @ [CHR 0x0A] @ ''record: '' @ record_text"

text \<open>The error counter is a C \<^verbatim>\<open>int\<close>; it is an unbounded integer here.\<close>

definition ReportTupleParseError ::
  "(int \<Rightarrow> error + string) \<Rightarrow> FieldLocation list \<Rightarrow> byte list \<Rightarrow> int \<Rightarrow> HdfsScanner
     \<Rightarrow> error + (bool \<times> byte list \<times> HdfsScanner)" where
  "ReportTupleParseError log_row flds errors row_idx s =
     (case fold (report_slot_step flds) [0..<length (materialized_slots (scan_node s))] (errors, s) of
        (errors1, s1) \<Rightarrow>
          (case (if LogHasSpace (state s1) then
                   (case log_row row_idx of
                      Inl e \<Rightarrow> Inl e
                    | Inr record_text \<Rightarrow>
                        Inr (s1\<lparr>state := LogError (row_error_text s1 record_text) (state s1)\<rparr>))
                 else Inr s1) of
             Inl e \<Rightarrow> Inl e
           | Inr s2 \<Rightarrow>
               (let s3 = s2\<lparr>num_errors_in_file := num_errors_in_file s2 + 1\<rparr>
                in if abort_on_error (state s3) then
                     (let s4 = s3\<lparr>state := ReportFileErrors (filename (scanner_context s3)) 1 (state s3)\<rparr>
                      in if ok (parse_status s4) then Inl (DCheckFailed ''!parse_status_.ok()'')
                         else Inr (ok (parse_status s4), errors1, s4))
                   else Inr (ok (parse_status s3), errors1, s3))))"

section \<open>The batch assembler\<close>

text \<open>
  Modelled from the spec: \<^verbatim>\<open>RowBatch\<close> (runtime/row-batch.h), a capacity-bounded,
  append-only sequence of rows. \<^verbatim>\<open>AddRows\<close> returns the index of the first uncommitted
  row, or \<^verbatim>\<open>INVALID_ROW_INDEX\<close> when the rows do not fit; \<^verbatim>\<open>CommitRows\<close> adds to the
  number of committed rows; the batch is full when that number is its capacity;
  \<^verbatim>\<open>GetRow\<close> asserts that the index is one of the batch. The resource threshold is the
  boolean \<open>at_resource_limit\<close>.
\<close>

definition INVALID_ROW_INDEX :: int where
  "INVALID_ROW_INDEX = - 1"

definition new_RowBatch :: "nat \<Rightarrow> int \<Rightarrow> RowBatch" where
  "new_RowBatch width cap =
     \<lparr>capacity = cap, num_rows = 0, rows = replicate (nat cap) (replicate width None),
      at_resource_limit = False\<rparr>"

definition IsFull :: "RowBatch \<Rightarrow> bool" where
  "IsFull b = (num_rows b = capacity b)"

definition AtResourceLimit :: "RowBatch \<Rightarrow> bool" where
  "AtResourceLimit b = at_resource_limit b"

definition AddRows :: "int \<Rightarrow> RowBatch \<Rightarrow> int" where
  "AddRows n b = (if num_rows b + n > capacity b then INVALID_ROW_INDEX else num_rows b)"

definition AddRow :: "RowBatch \<Rightarrow> int" where
  "AddRow b = AddRows 1 b"

definition RowBatch_CommitRows :: "int \<Rightarrow> RowBatch \<Rightarrow> RowBatch" where
  "RowBatch_CommitRows n b = b\<lparr>num_rows := num_rows b + n\<rparr>"

definition CommitLastRow :: "RowBatch \<Rightarrow> RowBatch" where
  "CommitLastRow b = RowBatch_CommitRows 1 b"

definition GetRow :: "RowBatch \<Rightarrow> int \<Rightarrow> error + TupleRow" where
  "GetRow b row_idx =
     (if 0 \<le> row_idx \<and> row_idx < capacity b \<and> nat row_idx < length (rows b)
      then Inr (rows b ! nat row_idx)
      else Inl (DCheckFailed ''GetRow: row_idx''))"

text \<open>Writing through the pointer that \<^verbatim>\<open>GetRow\<close> returned.\<close>

definition store_row :: "int \<Rightarrow> TupleRow \<Rightarrow> RowBatch \<Rightarrow> RowBatch" where
  "store_row row_idx row b = b\<lparr>rows := (rows b)[nat row_idx := row]\<rparr>"

text \<open>
  Modelled from the spec: the scanner context records the batches whose resources were
  attached to it, with the \<^verbatim>\<open>done\<close> flag, and the scan node queues the batches it is given
  for the consumer.
\<close>

definition AttachCompletedResources :: "RowBatch \<Rightarrow> bool \<Rightarrow> HdfsScanner \<Rightarrow> HdfsScanner" where
  "AttachCompletedResources b done s =
     s\<lparr>scanner_context := (scanner_context s)
          \<lparr>completed_resources := completed_resources (scanner_context s) @ [(b, done)]\<rparr>\<rparr>"

definition AddMaterializedRowBatch :: "RowBatch \<Rightarrow> HdfsScanner \<Rightarrow> HdfsScanner" where
  "AddMaterializedRowBatch b s =
     s\<lparr>scan_node := (scan_node s)
          \<lparr>materialized_row_batches := materialized_row_batches (scan_node s) @ [b]\<rparr>\<rparr>"

text \<open>Modelled from the spec: the query-wide health check returns the query's status.\<close>

definition CheckQueryState :: "RuntimeState \<Rightarrow> Status" where
  "CheckQueryState st = query_status st"

definition StartNewRowBatch :: "HdfsScanner \<Rightarrow> HdfsScanner" where
  "StartNewRowBatch s =
     s\<lparr>batch := Some (new_RowBatch (tuples_per_row (scan_node s)) (batch_size (state s))),
       tuple_mem := 0\<rparr>"

text \<open>
  \<^verbatim>\<open>GetMemory\<close> returns the write cursor, the index of the row \<^verbatim>\<open>AddRow\<close> gave and the
  number of rows that still fit.
\<close>

definition GetMemory :: "HdfsScanner \<Rightarrow> error + (int \<times> int \<times> int)" where
  "GetMemory s =
     (case batch s of
        None \<Rightarrow> Inl (DCheckFailed ''batch_ != NULL'')
      | Some b \<Rightarrow>
          if IsFull b then Inl (DCheckFailed ''!batch_->IsFull()'')
          else (case GetRow b (AddRow b) of
                  Inl e \<Rightarrow> Inl e
                | Inr row \<Rightarrow> Inr (tuple_mem s, AddRow b, capacity b - num_rows b)))"

definition CommitRows :: "int \<Rightarrow> HdfsScanner \<Rightarrow> error + (Status \<times> HdfsScanner)" where
  "CommitRows n s =
     (case batch s of
        None \<Rightarrow> Inl (DCheckFailed ''batch_ != NULL'')
      | Some b \<Rightarrow>
          if \<not> n \<le> capacity b - num_rows b
          then Inl (DCheckFailed ''num_rows <= batch_->capacity() - batch_->num_rows()'')
          else
            (let b1 = RowBatch_CommitRows n b;
                 s1 = s\<lparr>batch := Some b1,
                        tuple_mem := tuple_mem s + int (byte_size (scan_node s)) * n\<rparr>;
                 s2 = (if IsFull b1 \<or> AtResourceLimit b1
                       then StartNewRowBatch
                              (AddMaterializedRowBatch b1 (AttachCompletedResources b1 False s1))
                       else s1)
             in if cancelled (scanner_context s2) then Inr (CANCELLED, s2)
                else if \<not> ok (CheckQueryState (state s2)) then Inr (CheckQueryState (state s2), s2)
                else Inr (OK, s2)))"

definition AddFinalRowBatch :: "HdfsScanner \<Rightarrow> error + HdfsScanner" where
  "AddFinalRowBatch s =
     (case batch s of
        None \<Rightarrow> Inl (DCheckFailed ''batch_ != NULL'')
      | Some b \<Rightarrow>
          Inr ((AddMaterializedRowBatch b (AttachCompletedResources b True s))\<lparr>batch := None\<rparr>))"

section \<open>Set-up and tear-down\<close>

definition Prepare :: "ScannerContext \<Rightarrow> HdfsScanner \<Rightarrow> Status \<times> HdfsScanner" where
  "Prepare ctx s =
     (OK, StartNewRowBatch
            (s\<lparr>scanner_context := ctx,
               template_tuple := node_template_tuple (scan_node s),
               conjuncts := Some (node_conjuncts (scan_node s))\<rparr>))"

definition Close :: "HdfsScanner \<Rightarrow> HdfsScanner" where
  "Close s = (if conjuncts s \<noteq> None then s\<lparr>conjuncts := None\<rparr> else s)"

definition IncNumScannersCodegenDisabled :: "HdfsScanner \<Rightarrow> HdfsScanner" where
  "IncNumScannersCodegenDisabled s =
     s\<lparr>scan_node := (scan_node s)
          \<lparr>num_scanners_codegen_disabled := num_scanners_codegen_disabled (scan_node s) + 1\<rparr>\<rparr>"

definition IncNumScannersCodegenEnabled :: "HdfsScanner \<Rightarrow> HdfsScanner" where
  "IncNumScannersCodegenEnabled s =
     s\<lparr>scan_node := (scan_node s)
          \<lparr>num_scanners_codegen_enabled := num_scanners_codegen_enabled (scan_node s) + 1\<rparr>\<rparr>"

text \<open>
  \<^verbatim>\<open>InitializeWriteTuplesFn\<close>; \<open>escape_char\<close> is the partition's escape character, and
  the function \<^verbatim>\<open>JitFunction\<close> returns is the compiled function itself.
\<close>

definition InitializeWriteTuplesFn :: "char \<Rightarrow> HdfsScanner \<Rightarrow> Status \<times> HdfsScanner" where
  "InitializeWriteTuplesFn escape_char s =
     (let s1 = s\<lparr>scanner_codegen_fn := node_codegen_fn (scan_node s)\<rparr>
      in case scanner_codegen_fn s1 of
           None \<Rightarrow> (OK, IncNumScannersCodegenDisabled s1)
         | Some f \<Rightarrow>
             if string_slots (scan_node s1) \<noteq> []
                \<and> (escape_char \<noteq> CHR 0x00 \<or> stream_compact_data (scanner_context s1))
             then (OK, IncNumScannersCodegenDisabled s1)
             else (OK, IncNumScannersCodegenEnabled (s1\<lparr>write_tuples_fn := Some f\<rparr>)))"

section \<open>The empty-tuple fast path\<close>

text \<open>
  Both functions also return the rows on which \<^verbatim>\<open>EvalConjuncts\<close> was called, in call
  order. The loop of the batch variant:
\<close>

fun stamp_rows :: "nat \<Rightarrow> nat \<Rightarrow> Tuple \<Rightarrow> RowBatch \<Rightarrow> error + RowBatch" where
  "stamp_rows 0 tidx tpl b = Inr b"
| "stamp_rows (Suc k) tidx tpl b =
     (if IsFull b then Inl (DCheckFailed ''!row_batch->IsFull()'')
      else if AddRow b = INVALID_ROW_INDEX
      then Inl (DCheckFailed ''row_idx != RowBatch::INVALID_ROW_INDEX'')
      else (case GetRow b (AddRow b) of
              Inl e \<Rightarrow> Inl e
            | Inr current_row \<Rightarrow>
                stamp_rows k tidx tpl
                  (CommitLastRow (store_row (AddRow b) (SetTuple tidx tpl current_row) b))))"

definition WriteEmptyTuples_batch ::
  "HdfsScanner \<Rightarrow> RowBatch \<Rightarrow> int \<Rightarrow> error + (int \<times> RowBatch \<times> TupleRow list)" where
  "WriteEmptyTuples_batch s row_batch num_tuples =
     (if \<not> num_tuples > 0 then Inl (DCheckFailed ''num_tuples > 0'')
      else case template_tuple s of
        None \<Rightarrow> Inr (num_tuples, RowBatch_CommitRows num_tuples row_batch, [])
      | Some tpl \<Rightarrow>
          (case GetRow row_batch (AddRow row_batch) of
             Inl e \<Rightarrow> Inl e
           | Inr row0 \<Rightarrow>
               (let current_row = SetTuple (tuple_idx (scan_node s)) tpl row0;
                    rb1 = store_row (AddRow row_batch) current_row row_batch
                in case conjuncts s of
                     None \<Rightarrow> Inl NullPointer
                   | Some cs \<Rightarrow>
                       if \<not> EvalConjuncts cs current_row then Inr (0, rb1, [current_row])
                       else
                         (let rb2 = CommitLastRow rb1;
                              num_tuples1 = num_tuples - 1
                          in if \<not> num_tuples1 \<le> capacity rb2 - num_rows rb2
                             then Inl (DCheckFailed
                               ''num_tuples <= row_batch->capacity() - row_batch->num_rows()'')
                             else (case stamp_rows (nat num_tuples1) (tuple_idx (scan_node s)) tpl rb2 of
                                     Inl e \<Rightarrow> Inl e
                                   | Inr rb3 \<Rightarrow> Inr (num_tuples1, rb3, [current_row]))))))"

text \<open>
  The row-cursor variant: \<open>row_mem\<close> is the row memory the caller walks and \<open>row\<close> the
  position of the cursor in it; \<^verbatim>\<open>next_row\<close> moves the cursor to the next position.
\<close>

definition stamp_row_at :: "nat \<Rightarrow> Tuple \<Rightarrow> nat \<Rightarrow> TupleRow list \<Rightarrow> TupleRow list" where
  "stamp_row_at tidx tpl pos row_mem = row_mem[pos := SetTuple tidx tpl (row_mem ! pos)]"

definition WriteEmptyTuples_context ::
  "HdfsScanner \<Rightarrow> TupleRow list \<Rightarrow> nat \<Rightarrow> int \<Rightarrow> error + (int \<times> TupleRow list \<times> TupleRow list)" where
  "WriteEmptyTuples_context s row_mem row num_tuples =
     (if \<not> num_tuples \<ge> 0 then Inl (DCheckFailed ''num_tuples >= 0'')
      else if num_tuples = 0 then Inr (0, row_mem, [])
      else case template_tuple s of
        None \<Rightarrow>
          (case conjuncts s of
             None \<Rightarrow> Inl NullPointer
           | Some cs \<Rightarrow>
               if \<not> EvalConjuncts cs (row_mem ! row) then Inr (0, row_mem, [row_mem ! row])
               else Inr (num_tuples, row_mem, [row_mem ! row]))
      | Some tpl \<Rightarrow>
          (let mem1 = stamp_row_at (tuple_idx (scan_node s)) tpl row row_mem
           in case conjuncts s of
                None \<Rightarrow> Inl NullPointer
              | Some cs \<Rightarrow>
                  if \<not> EvalConjuncts cs (mem1 ! row) then Inr (0, mem1, [mem1 ! row])
                  else Inr (num_tuples,
                            fold (\<lambda>n. stamp_row_at (tuple_idx (scan_node s)) tpl (row + n))
                              [1..<nat num_tuples] mem1,
                            [mem1 ! row])))"

section \<open>The specialization builder\<close>

text \<open>
  The compilation backend (codegen/llvm-codegen.h and \<^verbatim>\<open>TextConverter::CodegenWriteSlot\<close>)
  is outside this file. \<open>CodegenWriteSlot\<close> gives the compiled writer of a slot or fails,
  \<open>GenerateLlvmStruct\<close> says whether the tuple's struct type can be built, \<open>GetFunction\<close>
  is the precompiled \<^verbatim>\<open>WriteAlignedTuples\<close>, and \<open>verify_fn\<close>, \<open>verify_ir\<close> say whether
  finalization accepts a function.
\<close>

record LlvmCodeGen =
  CodegenWriteSlot :: "SlotDescriptor \<Rightarrow> slot_fn option"
  GenerateLlvmStruct :: bool
  GetFunction :: "ir_function option"
  verify_fn :: "llvm_function \<Rightarrow> bool"
  verify_ir :: "ir_function \<Rightarrow> bool"

text \<open>
  Modelled from the spec: finalization returns the function it is given, or fails;
  optimization keeps the function's meaning.
\<close>

definition FinalizeFunction :: "LlvmCodeGen \<Rightarrow> llvm_function \<Rightarrow> llvm_function option" where
  "FinalizeFunction codegen f = (if verify_fn codegen f then Some f else None)"

definition FinalizeFunction_ir :: "LlvmCodeGen \<Rightarrow> ir_function \<Rightarrow> ir_function option" where
  "FinalizeFunction_ir codegen f = (if verify_ir codegen f then Some f else None)"

text \<open>
  Modelled from the spec: \<^verbatim>\<open>ReplaceCallSites\<close> replaces every call site of the named
  function by a call of the replacement and counts the call sites it replaced.
\<close>

fun replace_site :: "llvm_function \<Rightarrow> string \<Rightarrow> call_site \<Rightarrow> call_site" where
  "replace_site new_fn name (CallNamed callee) = (if callee = name then CallFn new_fn else CallNamed callee)"
| "replace_site new_fn name (CallFn f) = CallFn f"

fun is_site_of :: "string \<Rightarrow> call_site \<Rightarrow> bool" where
  "is_site_of name (CallNamed callee) = (callee = name)"
| "is_site_of name (CallFn f) = False"

definition ReplaceCallSites :: "ir_function \<Rightarrow> llvm_function \<Rightarrow> string \<Rightarrow> ir_function \<times> int" where
  "ReplaceCallSites caller new_fn name =
     (caller\<lparr>call_sites := map (replace_site new_fn name) (call_sites caller)\<rparr>,
      int (length (filter (is_site_of name) (call_sites caller))))"

text \<open>The loop over the conjuncts (lines 316-320): the compiled forms, or \<^verbatim>\<open>NULL\<close>.\<close>

fun conjunct_fns :: "Expr list \<Rightarrow> error + (TupleRow \<Rightarrow> bool) list option" where
  "conjunct_fns [] = Inr (Some [])"
| "conjunct_fns (c # cs) =
     (case codegen_fn c of
        None \<Rightarrow> Inr None
      | Some f \<Rightarrow>
          if scratch_buffer_size c \<noteq> 0
          then Inl (DCheckFailed ''conjuncts[i]->scratch_buffer_size() == 0'')
          else (case conjunct_fns cs of
                  Inl e \<Rightarrow> Inl e
                | Inr None \<Rightarrow> Inr None
                | Inr (Some fs) \<Rightarrow> Inr (Some (f # fs))))"

text \<open>The loop over the slots (lines 325-332): the compiled writers, or \<^verbatim>\<open>NULL\<close>.\<close>

fun slot_fns :: "LlvmCodeGen \<Rightarrow> SlotDescriptor list \<Rightarrow> slot_fn list option" where
  "slot_fns codegen [] = Some []"
| "slot_fns codegen (slot_desc # ds) =
     (case CodegenWriteSlot codegen slot_desc of
        None \<Rightarrow> None
      | Some f \<Rightarrow> (case slot_fns codegen ds of None \<Rightarrow> None | Some fs \<Rightarrow> Some (f # fs)))"

text \<open>
  The slots the inner loop materialises for \<open>conjunct_idx\<close>, and the blocks the outer
  loop emits from \<open>conjunct_idx\<close> on when \<open>remaining\<close> conjuncts are left.
\<close>

definition slots_for :: "nat list \<Rightarrow> nat \<Rightarrow> nat list" where
  "slots_for order conjunct_idx =
     filter (\<lambda>slot_idx. order ! slot_idx = conjunct_idx) [0..<length order]"

fun parse_blocks :: "nat list \<Rightarrow> nat \<Rightarrow> nat \<Rightarrow> parse_block" where
  "parse_blocks order 0 conjunct_idx = RetTrue (slots_for order conjunct_idx)"
| "parse_blocks order (Suc remaining) conjunct_idx =
     CondBr (slots_for order conjunct_idx) conjunct_idx
       (parse_blocks order remaining (Suc conjunct_idx))"

definition CodegenWriteCompleteTuple ::
  "HdfsScanNode \<Rightarrow> LlvmCodeGen \<Rightarrow> Expr list \<Rightarrow> error + llvm_function option" where
  "CodegenWriteCompleteTuple node codegen cs =
     (if list_ex (\<lambda>slot_desc. slot_type slot_desc = TYPE_TIMESTAMP) (materialized_slots node)
      then Inr None
      else if compact_data node \<and> string_slots node \<noteq> [] then Inr None
      else case conjunct_fns cs of
        Inl e \<Rightarrow> Inl e
      | Inr None \<Rightarrow> Inr None
      | Inr (Some cfns) \<Rightarrow>
          (case slot_fns codegen (materialized_slots node) of
             None \<Rightarrow> Inr None
           | Some sfns \<Rightarrow>
               if \<not> GenerateLlvmStruct codegen then Inr None
               else Inr (FinalizeFunction codegen
                 \<lparr>fn_init = (if num_materialized_partition_keys node = 0
                             then ZeroNullBytes (num_null_bytes node)
                             else MemcpyTemplate (byte_size node)),
                  fn_tuple_idx = tuple_idx node,
                  fn_slot_fns = sfns,
                  fn_conjunct_fns = cfns,
                  fn_body = parse_blocks (materialize_order node) (length cs) 0\<rparr>)))"

definition CodegenWriteAlignedTuples ::
  "HdfsScanNode \<Rightarrow> LlvmCodeGen \<Rightarrow> llvm_function option \<Rightarrow> error + ir_function option" where
  "CodegenWriteAlignedTuples node codegen write_complete_tuple_fn =
     (case write_complete_tuple_fn of
        None \<Rightarrow> Inl (DCheckFailed ''write_complete_tuple_fn != NULL'')
      | Some wfn \<Rightarrow>
          (case GetFunction codegen of
             None \<Rightarrow> Inl (DCheckFailed ''write_tuples_fn != NULL'')
           | Some write_tuples \<Rightarrow>
               (case ReplaceCallSites write_tuples wfn ''WriteCompleteTuple'' of
                  (write_tuples1, replaced) \<Rightarrow>
                    if replaced \<noteq> 1 then Inl (DCheckFailed ''One call site should be replaced.'')
                    else Inr (FinalizeFunction_ir codegen write_tuples1))))"

section \<open>Running the generated tuple writer\<close>

text \<open>
  A materialisation emitted by the inner loop: load the field, call the slot's compiled
  writer with the length as it is stored, or the accumulated error flag with the
  failure, and store the failure in \<^verbatim>\<open>error_fields\<close>. The row was given the tuple's address
  on entry, so the row shows every write to the tuple.
\<close>

definition fused_slot_step ::
  "llvm_function \<Rightarrow> FieldLocation list \<Rightarrow> nat \<Rightarrow> wct_mem \<times> bool \<Rightarrow> wct_mem \<times> bool" where
  "fused_slot_step f flds slot_idx st =
     (case st of (m, error_in_row_acc) \<Rightarrow>
        (case (fn_slot_fns f ! slot_idx) (tuple m) (start (flds ! slot_idx)) (len (flds ! slot_idx)) of
           (slot_parsed, t') \<Rightarrow>
             (m\<lparr>tuple := t',
                tuple_row := SetTuple (fn_tuple_idx f) t' (tuple_row m),
                error_fields := (error_fields m)[slot_idx := of_bool (\<not> slot_parsed)]\<rparr>,
              error_in_row_acc \<or> \<not> slot_parsed)))"

fun run_blocks ::
  "llvm_function \<Rightarrow> FieldLocation list \<Rightarrow> parse_block \<Rightarrow> wct_mem \<times> bool \<Rightarrow> bool \<times> wct_mem" where
  "run_blocks f flds (RetTrue slots) st =
     (case fold (fused_slot_step f flds) slots st of
        (m, error_in_row_acc) \<Rightarrow> (True, m\<lparr>error_in_row := of_bool error_in_row_acc\<rparr>))"
| "run_blocks f flds (CondBr slots conjunct_idx next_block) st =
     (case fold (fused_slot_step f flds) slots st of
        (m, error_in_row_acc) \<Rightarrow>
          if (fn_conjunct_fns f ! conjunct_idx) (tuple_row m)
          then run_blocks f flds next_block (m, error_in_row_acc)
          else (False, m))"

definition call_WriteCompleteTuple_fn ::
  "llvm_function \<Rightarrow> FieldLocation list \<Rightarrow> Tuple option \<Rightarrow> wct_mem \<Rightarrow> error + (bool \<times> wct_mem)" where
  "call_WriteCompleteTuple_fn f flds tmpl m =
     (case (case fn_init f of
              ZeroNullBytes n \<Rightarrow> Inr (memset0 n (tuple m))
            | MemcpyTemplate n \<Rightarrow>
                (case tmpl of None \<Rightarrow> Inl NullPointer | Some tpl \<Rightarrow> Inr (memcpy n tpl (tuple m)))) of
        Inl e \<Rightarrow> Inl e
      | Inr t0 \<Rightarrow>
          Inr (run_blocks f flds (fn_body f)
                 (m\<lparr>tuple := t0, tuple_row := SetTuple (fn_tuple_idx f) t0 (tuple_row m)\<rparr>, False)))"

section \<open>The operations of a scanner\<close>

text \<open>
  The member functions of this file as operations on a scanner, and the scanner they
  leave behind; an operation that ends in a failed assertion or a null dereference
  leaves none. The functions that write through their arguments only
  (\<^verbatim>\<open>WriteCompleteTuple\<close>, \<^verbatim>\<open>WriteEmptyTuples\<close>, \<^verbatim>\<open>GetMemory\<close>) leave the scanner as it was.
\<close>

datatype scanner_op =
    OpPrepare ScannerContext
  | OpClose
  | OpInitializeWriteTuplesFn char
  | OpStartNewRowBatch
  | OpGetMemory
  | OpCommitRows int
  | OpAddFinalRowBatch
  | OpWriteEmptyTuplesBatch RowBatch int
  | OpWriteEmptyTuplesContext "TupleRow list" nat int
  | OpWriteCompleteTuple "FieldLocation list" "Tuple option" wct_mem
  | OpReportTupleParseError "int \<Rightarrow> error + string" "FieldLocation list" "byte list" int
  | OpLogRowParseError int
  | OpReportColumnParseError SlotDescriptor string "32 word"

fun scanner_after :: "scanner_op \<Rightarrow> HdfsScanner \<Rightarrow> error + HdfsScanner" where
  "scanner_after (OpPrepare ctx) s = Inr (snd (Prepare ctx s))"
| "scanner_after OpClose s = Inr (Close s)"
| "scanner_after (OpInitializeWriteTuplesFn escape_char) s = Inr (snd (InitializeWriteTuplesFn escape_char s))"
| "scanner_after OpStartNewRowBatch s = Inr (StartNewRowBatch s)"
| "scanner_after OpGetMemory s = (case GetMemory s of Inl e \<Rightarrow> Inl e | Inr r \<Rightarrow> Inr s)"
| "scanner_after (OpCommitRows n) s = (case CommitRows n s of Inl e \<Rightarrow> Inl e | Inr r \<Rightarrow> Inr (snd r))"
| "scanner_after OpAddFinalRowBatch s = AddFinalRowBatch s"
| "scanner_after (OpWriteEmptyTuplesBatch row_batch n) s =
     (case WriteEmptyTuples_batch s row_batch n of Inl e \<Rightarrow> Inl e | Inr r \<Rightarrow> Inr s)"
| "scanner_after (OpWriteEmptyTuplesContext row_mem row n) s =
     (case WriteEmptyTuples_context s row_mem row n of Inl e \<Rightarrow> Inl e | Inr r \<Rightarrow> Inr s)"
| "scanner_after (OpWriteCompleteTuple flds tmpl m) s =
     (case WriteCompleteTuple s flds tmpl m of Inl e \<Rightarrow> Inl e | Inr r \<Rightarrow> Inr s)"
| "scanner_after (OpReportTupleParseError log_row flds errors row_idx) s =
     (case ReportTupleParseError log_row flds errors row_idx s of
        Inl e \<Rightarrow> Inl e | Inr r \<Rightarrow> Inr (snd (snd r)))"
| "scanner_after (OpLogRowParseError row_idx) s =
     (case LogRowParseError row_idx of Inl e \<Rightarrow> Inl e | Inr r \<Rightarrow> Inr s)"
| "scanner_after (OpReportColumnParseError desc data l) s = Inr (ReportColumnParseError desc data l s)"

fun scanner_after_all :: "scanner_op list \<Rightarrow> HdfsScanner \<Rightarrow> error + HdfsScanner" where
  "scanner_after_all [] s = Inr s"
| "scanner_after_all (opn # ops) s =
     (case scanner_after opn s of Inl e \<Rightarrow> Inl e | Inr s' \<Rightarrow> scanner_after_all ops s')"

section \<open>Conditions for comparing the two tuple writers\<close>

text \<open>
  The compiled forms compute what the interpreted ones do: a conjunct's compiled form
  is its evaluation, and a slot's compiled writer, given the stored length, does what
  \<^verbatim>\<open>WriteSlot\<close> does with the decoded length and escape flag.
\<close>

definition compiled_forms_agree :: "HdfsScanner \<Rightarrow> LlvmCodeGen \<Rightarrow> Expr list \<Rightarrow> bool" where
  "compiled_forms_agree s codegen cs \<longleftrightarrow>
     (\<forall>c \<in> set cs. \<forall>f. codegen_fn c = Some f \<longrightarrow> f = eval c)
   \<and> (\<forall>d \<in> set (materialized_slots (scan_node s)). \<forall>f. CodegenWriteSlot codegen d = Some f \<longrightarrow>
         (\<forall>t data l. f t data l =
            WriteSlot (text_converter s) d t data (if sint l < 0 then - l else l)
              (stream_compact_data (scanner_context s)) (sint l < 0)))"

text \<open>
  Whether a conversion succeeds does not depend on the tuple it writes to, and the
  writes of two different materialized slots can be swapped.
\<close>

definition slot_writes_independent :: "HdfsScanner \<Rightarrow> bool" where
  "slot_writes_independent s \<longleftrightarrow>
     (\<forall>i < length (materialized_slots (scan_node s)). \<forall>t t' data l esc.
        fst (WriteSlot (text_converter s) (materialized_slots (scan_node s) ! i) t data l
               (stream_compact_data (scanner_context s)) esc)
        = fst (WriteSlot (text_converter s) (materialized_slots (scan_node s) ! i) t' data l
               (stream_compact_data (scanner_context s)) esc))
   \<and> (\<forall>i < length (materialized_slots (scan_node s)).
      \<forall>j < length (materialized_slots (scan_node s)). i \<noteq> j \<longrightarrow>
        (\<forall>t data l esc data' l' esc'.
           snd (WriteSlot (text_converter s) (materialized_slots (scan_node s) ! i)
                  (snd (WriteSlot (text_converter s) (materialized_slots (scan_node s) ! j) t
                          data' l' (stream_compact_data (scanner_context s)) esc'))
                  data l (stream_compact_data (scanner_context s)) esc)
           = snd (WriteSlot (text_converter s) (materialized_slots (scan_node s) ! j)
                  (snd (WriteSlot (text_converter s) (materialized_slots (scan_node s) ! i) t
                          data l (stream_compact_data (scanner_context s)) esc))
                  data' l' (stream_compact_data (scanner_context s)) esc')))"

text \<open>
  The materialization order schedules every materialized slot at a conjunct or after
  the last one, and a conjunct does not read a slot scheduled after it: writing such a
  slot does not change what the conjunct returns.
\<close>

definition materialize_order_ok :: "HdfsScanner \<Rightarrow> Expr list \<Rightarrow> bool" where
  "materialize_order_ok s cs \<longleftrightarrow>
     length (materialize_order (scan_node s)) = length (materialized_slots (scan_node s))
   \<and> (\<forall>i < length (materialized_slots (scan_node s)).
        materialize_order (scan_node s) ! i \<le> length cs)
   \<and> (\<forall>k < length cs. \<forall>i < length (materialized_slots (scan_node s)).
        k < materialize_order (scan_node s) ! i \<longrightarrow>
          (\<forall>row t data l esc.
             eval (cs ! k)
               (SetTuple (tuple_idx (scan_node s))
                  (snd (WriteSlot (text_converter s) (materialized_slots (scan_node s) ! i) t
                          data l (stream_compact_data (scanner_context s)) esc)) row)
             = eval (cs ! k) (SetTuple (tuple_idx (scan_node s)) t row)))"

text \<open>
  The state of the generated writer (its memory and its accumulated error flag) and the
  state of the interpreted writer describe the same tuple and flags, for a row that was
  \<open>row0\<close> on entry.
\<close>

definition writers_related :: "nat \<Rightarrow> TupleRow \<Rightarrow> wct_mem \<times> bool \<Rightarrow> wct_mem \<Rightarrow> bool" where
  "writers_related idx row0 st mi \<longleftrightarrow>
     tuple (fst st) = tuple mi
   \<and> error_fields (fst st) = error_fields mi
   \<and> error_in_row mi = of_bool (snd st)
   \<and> tuple_row (fst st) = SetTuple idx (tuple mi) row0
   \<and> tuple_row mi = row0"

section \<open>Properties of the interpreted tuple writer\<close>

lemma of_bool_OR_byte: "(of_bool a :: byte) OR of_bool b = of_bool (a \<or> b)"
  by (cases a; cases b; simp)

lemma write_slot_step_error_fields_length:
  "length (error_fields (write_slot_step s flds i m)) = length (error_fields m)"
  by (simp add: write_slot_step_def Let_def split: prod.splits)

lemma write_slot_step_tuple_row:
  "tuple_row (write_slot_step s flds i m) = tuple_row m"
  by (simp add: write_slot_step_def Let_def split: prod.splits)

lemma mem_before_Suc:
  "mem_before s flds tt m (Suc i) = write_slot_step s flds i (mem_before s flds tt m i)"
  by (simp add: mem_before_def)

lemma mem_before_error_fields_length:
  "length (error_fields (mem_before s flds tt m i)) = length (error_fields m)"
  by (induction i) (simp_all add: mem_before_Suc write_slot_step_error_fields_length mem_before_def)

lemma mem_before_tuple_row:
  "tuple_row (mem_before s flds tt m i) = tuple_row m"
  by (induction i) (simp_all add: mem_before_Suc write_slot_step_tuple_row mem_before_def)

lemma step_error_fields_at:
  "error_fields (write_slot_step s flds i (mem_before s flds tt m i)) =
     (error_fields (mem_before s flds tt m i))[i := of_bool (slot_fails s flds tt m i)]"
  by (simp add: write_slot_step_def slot_fails_def Let_def split: prod.splits)


lemma mem_before_error_fields:
  "k \<le> length (error_fields m) \<Longrightarrow> i < k \<Longrightarrow>
     error_fields (mem_before s flds tt m k) ! i = of_bool (slot_fails s flds tt m i)"
proof (induction k)
  case 0
  then show ?case by simp
next
  case (Suc k)
  have len: "length (error_fields (mem_before s flds tt m k)) = length (error_fields m)"
    by (rule mem_before_error_fields_length)
  show ?case
  proof (cases "i = k")
    case True
    with Suc.prems len show ?thesis
      by (simp add: mem_before_Suc step_error_fields_at)
  next
    case False
    with Suc show ?thesis
      by (simp add: mem_before_Suc step_error_fields_at)
  qed
qed


lemma WriteCompleteTuple_unfold:
  "conjuncts s = Some cs \<Longrightarrow>
   WriteCompleteTuple s flds tt m =
     (let m2 = mem_before s flds tt m (length (materialized_slots (scan_node s)));
          m3 = m2\<lparr>tuple_row := SetTuple (tuple_idx (scan_node s)) (tuple m2) (tuple_row m2)\<rparr>
      in Inr (EvalConjuncts cs (tuple_row m3), m3))"
  by (simp add: WriteCompleteTuple_def mem_before_def Let_def)


section \<open>A concrete configuration\<close>

text \<open>
  Two materialized slots (a one-byte number at offset 1, a one-byte string at offset 2,
  after one null-indicator byte), one conjunct on the first slot, and a converter that
  stores the first byte of a field and fails on an empty field.
\<close>

definition demo_WriteSlot ::
  "SlotDescriptor \<Rightarrow> Tuple \<Rightarrow> string \<Rightarrow> 32 word \<Rightarrow> bool \<Rightarrow> bool \<Rightarrow> bool \<times> Tuple" where
  "demo_WriteSlot desc t data l copy_string need_escape =
     (case take (unat l) data of
        [] \<Rightarrow> (False, t)
      | c # cs \<Rightarrow> (True, t[nat (col_pos desc) := of_char c]))"

definition demo_gt5 :: "TupleRow \<Rightarrow> bool" where
  "demo_gt5 row = (case row of Some t # r \<Rightarrow> (if 1 < length t then 53 < t ! 1 else False) | _ \<Rightarrow> False)"

definition demo_conjunct :: Expr where
  "demo_conjunct = \<lparr>eval = demo_gt5, codegen_fn = Some demo_gt5, scratch_buffer_size = 0\<rparr>"

definition demo_slots :: "SlotDescriptor list" where
  "demo_slots = [\<lparr>slot_type = TYPE_TINYINT, col_pos = 1\<rparr>, \<lparr>slot_type = TYPE_STRING, col_pos = 2\<rparr>]"

definition demo_node :: HdfsScanNode where
  "demo_node =
     \<lparr>materialized_slots = demo_slots,
      string_slots = [\<lparr>slot_type = TYPE_STRING, col_pos = 2\<rparr>],
      byte_size = 3, num_null_bytes = 1, compact_data = False,
      num_materialized_partition_keys = 0, num_partition_keys = 0, tuple_idx = 0,
      tuples_per_row = 1, materialize_order = [0, 1], node_conjuncts = [demo_conjunct],
      node_template_tuple = None, node_codegen_fn = None,
      materialized_row_batches = [],
      num_scanners_codegen_enabled = 0, num_scanners_codegen_disabled = 0\<rparr>"

definition demo_state :: RuntimeState where
  "demo_state =
     \<lparr>batch_size = 2, abort_on_error = False, error_log = [], max_errors = 10,
      query_status = OK, file_errors = []\<rparr>"

definition demo_context :: ScannerContext where
  "demo_context =
     \<lparr>cancelled = False, completed_resources = [], filename = ''f.txt'',
      stream_compact_data = False\<rparr>"

definition demo_batch :: RowBatch where
  "demo_batch = \<lparr>capacity = 2, num_rows = 0, rows = [[None], [None]], at_resource_limit = False\<rparr>"

definition demo_scanner :: HdfsScanner where
  "demo_scanner =
     \<lparr>scan_node = demo_node, state = demo_state, scanner_context = demo_context,
      text_converter = \<lparr>WriteSlot = demo_WriteSlot\<rparr>,
      conjuncts = Some [demo_conjunct], template_tuple = None,
      scanner_codegen_fn = None, write_tuples_fn = None, tuple_mem = 0,
      batch = Some demo_batch, num_errors_in_file = 0, parse_status = OK\<rparr>"

definition demo_mem :: wct_mem where
  "demo_mem = \<lparr>tuple = [255, 0, 0], tuple_row = [None], error_fields = [1, 1], error_in_row = 1\<rparr>"

definition demo_fields :: "FieldLocation list" where
  "demo_fields = [\<lparr>start = ''7'', len = 1\<rparr>, \<lparr>start = ''abc'', len = 0\<rparr>]"

text \<open>A row whose second field is escaped: three bytes of the memory at its pointer.\<close>

definition demo_escaped_fields :: "FieldLocation list" where
  "demo_escaped_fields = [\<lparr>start = ''7'', len = 1\<rparr>, \<lparr>start = ''abcd'', len = - 3\<rparr>]"

definition demo_log_row :: "int \<Rightarrow> error + string" where
  "demo_log_row row_idx = Inr (''row '' @ show_int row_idx)"

text \<open>The same scanner when the error log is full.\<close>

definition demo_full_log_scanner :: HdfsScanner where
  "demo_full_log_scanner = demo_scanner\<lparr>state := demo_state\<lparr>max_errors := 0\<rparr>\<rparr>"

text \<open>
  The same scanner for a split whose tuple comes from the partition keys alone, with the
  cancellation flag set.
\<close>

definition demo_partition_scanner :: HdfsScanner where
  "demo_partition_scanner =
     demo_scanner\<lparr>template_tuple := Some [0, 57, 0],
                   scanner_context := demo_context\<lparr>cancelled := True\<rparr>\<rparr>"

text \<open>A backend for it, and the batch-level routine with its call sites.\<close>

definition demo_write_tuples :: ir_function where
  "demo_write_tuples =
     \<lparr>call_sites = [CallNamed ''WriteCompleteTuple'', CallNamed ''ReportTupleParseError'']\<rparr>"

definition demo_slot_fn :: "SlotDescriptor \<Rightarrow> slot_fn" where
  "demo_slot_fn d t data l =
     demo_WriteSlot d t data (if sint l < 0 then - l else l) False (sint l < 0)"

definition demo_codegen :: LlvmCodeGen where
  "demo_codegen =
     \<lparr>CodegenWriteSlot = (\<lambda>d. if slot_type d = TYPE_TIMESTAMP then None else Some (demo_slot_fn d)),
      GenerateLlvmStruct = True,
      GetFunction = Some demo_write_tuples,
      verify_fn = (\<lambda>f. True),
      verify_ir = (\<lambda>f. True)\<rparr>"

definition demo_fn :: llvm_function where
  "demo_fn =
     \<lparr>fn_init = ZeroNullBytes 1, fn_tuple_idx = 0,
      fn_slot_fns = [demo_slot_fn (demo_slots ! 0), demo_slot_fn (demo_slots ! 1)],
      fn_conjunct_fns = [demo_gt5],
      fn_body = CondBr [0] 0 (RetTrue [1])\<rparr>"

text \<open>The same scanner under the abort-on-error policy, and after a fatal parse error.\<close>

definition demo_abort_scanner :: HdfsScanner where
  "demo_abort_scanner = demo_scanner\<lparr>state := demo_state\<lparr>abort_on_error := True\<rparr>\<rparr>"

definition demo_failed_scanner :: HdfsScanner where
  "demo_failed_scanner = demo_abort_scanner\<lparr>parse_status := Error ''bad column''\<rparr>"

text \<open>A row that the conjunct rejects, one that it rejects with a malformed second field, and clean buffers.\<close>

definition demo_rejected_fields :: "FieldLocation list" where
  "demo_rejected_fields = [\<lparr>start = ''3'', len = 1\<rparr>, \<lparr>start = ''abc'', len = 3\<rparr>]"

definition demo_rejected_malformed_fields :: "FieldLocation list" where
  "demo_rejected_malformed_fields = [\<lparr>start = ''3'', len = 1\<rparr>, \<lparr>start = ''abc'', len = 0\<rparr>]"

definition demo_clean_mem :: wct_mem where
  "demo_clean_mem = \<lparr>tuple = [255, 0, 0], tuple_row = [None], error_fields = [0, 0], error_in_row = 0\<rparr>"

text \<open>
  The same scanner with a converter that shows how it was called: it stores the length
  it was given when unescaping is switched on, and 0 when it is not.
\<close>

definition demo_probe_WriteSlot ::
  "SlotDescriptor \<Rightarrow> Tuple \<Rightarrow> string \<Rightarrow> 32 word \<Rightarrow> bool \<Rightarrow> bool \<Rightarrow> bool \<times> Tuple" where
  "demo_probe_WriteSlot desc t data l copy_string need_escape =
     (True, t[nat (col_pos desc) := (if need_escape then ucast l else 0)])"

definition demo_probe_scanner :: HdfsScanner where
  "demo_probe_scanner = demo_scanner\<lparr>text_converter := \<lparr>WriteSlot = demo_probe_WriteSlot\<rparr>\<rparr>"

lemmas demo_defs =
  demo_scanner_def demo_node_def demo_state_def demo_context_def demo_batch_def demo_slots_def
  demo_conjunct_def demo_gt5_def demo_WriteSlot_def demo_mem_def demo_fields_def
  demo_escaped_fields_def demo_log_row_def demo_full_log_scanner_def demo_partition_scanner_def
  demo_write_tuples_def demo_codegen_def demo_fn_def demo_abort_scanner_def
  demo_failed_scanner_def demo_rejected_fields_def demo_rejected_malformed_fields_def
  demo_clean_mem_def demo_slot_fn_def demo_probe_WriteSlot_def demo_probe_scanner_def

lemma upt_2: "[0..<2] = [0, Suc 0]"
  by (simp add: upt_rec)

section \<open>What the interpreted tuple writer returns\<close>




section \<open>Escaped fields\<close>

lemma sint_minus_32:
  assumes "sint (l :: 32 word) \<noteq> - (2 ^ 31)"
  shows "sint (- l) = - sint l"
proof -
  have lo: "- (2 ^ 31) \<le> sint l" using sint_ge [of l] by simp
  have hi: "sint l < 2 ^ 31" using sint_lt [of l] by simp
  have "sint (- l) = signed_take_bit 31 (- sint l)"
    by (simp add: sint_word_ariths)
  also have "\<dots> = - sint l"
    using assms lo hi by (intro signed_take_bit_int_eq_self) auto
  finally show ?thesis .
qed

lemma ReportColumnParseError_fields:
  "state (ReportColumnParseError desc data l s) =
     (if LogHasSpace (state s)
      then LogError (column_error_text s desc data (if sint l < 0 then - l else l)) (state s)
      else state s)"
  "parse_status (ReportColumnParseError desc data l s) =
     (if abort_on_error (state s) \<and> ok (parse_status s)
      then Error (column_error_text s desc data (if sint l < 0 then - l else l))
      else parse_status s)"
  "num_errors_in_file (ReportColumnParseError desc data l s) = num_errors_in_file s"
  "scanner_context (ReportColumnParseError desc data l s) = scanner_context s"
  by (auto simp add: ReportColumnParseError_def Let_def LogError_def LogHasSpace_def)

lemma mem_before_from:
  assumes "k \<le> n"
  shows "mem_before s flds tt m n = fold (write_slot_step s flds) [k..<n] (mem_before s flds tt m k)"
proof -
  have "[0..<n] = [0..<k] @ [k..<n]"
    using upt_add_eq_append [of 0 k "n - k"] assms by simp
  then show ?thesis by (simp add: mem_before_def)
qed

text \<open>
  C5. Let slot \<open>i\<close> be a materialized slot whose field has a negative length \<open>l\<close>: the
  negation of a true length, so not the least \<^verbatim>\<open>int\<close>, which is the negation of no
  \<^verbatim>\<open>int\<close>. Then \<open>- l\<close> reads as the absolute value of \<open>l\<close>, and \<^verbatim>\<open>WriteCompleteTuple\<close>
  converts the field by calling the converter, on the tuple as the slots before \<open>i\<close>
  have left it, with the length \<open>- l\<close> and with unescaping switched on: that call gives
  the state of its loop after slot \<open>i\<close>, the memory \<^verbatim>\<open>WriteCompleteTuple\<close> returns is the
  one the remaining slots make of that state, and the error flag it returns for slot \<open>i\<close>
  is the failure of that call. \<^verbatim>\<open>ReportColumnParseError\<close> puts the first \<open>|l|\<close> bytes of
  the data into its message, which is what it logs when the log has space and what the
  parse status carries when the scanner aborts on errors and the status was ok.
\<close>

theorem negative_length_is_escaped_absolute_length:
  assumes neg: "sint l < 0" and not_min: "sint l \<noteq> - (2 ^ 31)"
    and i: "i < length (materialized_slots (scan_node s))"
    and fl: "length (materialized_slots (scan_node s)) \<le> length flds"
    and ef: "length (materialized_slots (scan_node s)) \<le> length (error_fields m)"
    and fld: "len (flds ! i) = l"
    and cs: "conjuncts s = Some cs"
  shows "sint (- l) = \<bar>sint l\<bar>
     \<and> mem_before s flds tt m (Suc i) =
         (case WriteSlot (text_converter s) (materialized_slots (scan_node s) ! i)
                 (tuple (mem_before s flds tt m i))
                 (start (flds ! i)) (- l) (stream_compact_data (scanner_context s)) True of
            (written, t') \<Rightarrow>
              (mem_before s flds tt m i)
                \<lparr>tuple := t',
                 error_fields := (error_fields (mem_before s flds tt m i))[i := of_bool (\<not> written)],
                 error_in_row := error_in_row (mem_before s flds tt m i) OR of_bool (\<not> written)\<rparr>)
     \<and> (\<exists>r m'. WriteCompleteTuple s flds tt m = Inr (r, m')
           \<and> m' = (let m2 = fold (write_slot_step s flds)
                               [Suc i..<length (materialized_slots (scan_node s))]
                               (mem_before s flds tt m (Suc i))
                    in m2\<lparr>tuple_row := SetTuple (tuple_idx (scan_node s)) (tuple m2) (tuple_row m2)\<rparr>)
           \<and> error_fields m' ! i =
               of_bool (\<not> fst (WriteSlot (text_converter s) (materialized_slots (scan_node s) ! i)
                                  (tuple (mem_before s flds tt m i))
                                  (start (flds ! i)) (- l)
                                  (stream_compact_data (scanner_context s)) True)))
     \<and> error_log (state (ReportColumnParseError desc data l s)) =
         (if LogHasSpace (state s)
          then error_log (state s) @
                 [''Error converting column: ''
                    @ show_int (col_pos desc - num_partition_keys (scan_node s))
                    @ '' TO '' @ TypeToString (slot_type desc)
                    @ '' (Data is: '' @ take (nat \<bar>sint l\<bar>) data @ '')'']
          else error_log (state s))
     \<and> parse_status (ReportColumnParseError desc data l s) =
         (if abort_on_error (state s) \<and> ok (parse_status s)
          then Error (''Error converting column: ''
                    @ show_int (col_pos desc - num_partition_keys (scan_node s))
                    @ '' TO '' @ TypeToString (slot_type desc)
                    @ '' (Data is: '' @ take (nat \<bar>sint l\<bar>) data @ '')'')
          else parse_status s)"
proof -
  let ?n = "length (materialized_slots (scan_node s))"
  let ?before = "mem_before s flds tt m i"
  have abs: "sint (- l) = \<bar>sint l\<bar>"
    using neg sint_minus_32 [OF not_min] by simp
  have step: "mem_before s flds tt m (Suc i) =
         (case WriteSlot (text_converter s) (materialized_slots (scan_node s) ! i) (tuple ?before)
                 (start (flds ! i)) (- l) (stream_compact_data (scanner_context s)) True of
            (written, t') \<Rightarrow>
              ?before
                \<lparr>tuple := t',
                 error_fields := (error_fields ?before)[i := of_bool (\<not> written)],
                 error_in_row := error_in_row ?before OR of_bool (\<not> written)\<rparr>)"
    unfolding mem_before_Suc using neg fld by (simp add: write_slot_step_def Let_def)
  have rest: "mem_before s flds tt m ?n
      = fold (write_slot_step s flds) [Suc i..<?n] (mem_before s flds tt m (Suc i))"
    using i by (intro mem_before_from) simp
  have fails: "slot_fails s flds tt m i =
      (\<not> fst (WriteSlot (text_converter s) (materialized_slots (scan_node s) ! i) (tuple ?before)
                 (start (flds ! i)) (- l) (stream_compact_data (scanner_context s)) True))"
    using neg fld by (simp add: slot_fails_def Let_def)
  have flag: "error_fields (mem_before s flds tt m ?n) ! i = of_bool (slot_fails s flds tt m i)"
    by (rule mem_before_error_fields [OF ef i])
  have run: "\<exists>r m'. WriteCompleteTuple s flds tt m = Inr (r, m')
           \<and> m' = (let m2 = fold (write_slot_step s flds) [Suc i..<?n]
                               (mem_before s flds tt m (Suc i))
                    in m2\<lparr>tuple_row := SetTuple (tuple_idx (scan_node s)) (tuple m2) (tuple_row m2)\<rparr>)
           \<and> error_fields m' ! i =
               of_bool (\<not> fst (WriteSlot (text_converter s) (materialized_slots (scan_node s) ! i)
                                  (tuple ?before) (start (flds ! i)) (- l)
                                  (stream_compact_data (scanner_context s)) True))"
    using WriteCompleteTuple_unfold [OF cs, of flds tt m] flag
    unfolding rest fails by (simp add: Let_def)
  have msg: "column_error_text s desc data (- l) =
      ''Error converting column: ''
        @ show_int (col_pos desc - num_partition_keys (scan_node s))
        @ '' TO '' @ TypeToString (slot_type desc)
        @ '' (Data is: '' @ take (nat \<bar>sint l\<bar>) data @ '')''"
    unfolding column_error_text_def abs by (rule refl)
  have log: "error_log (state (ReportColumnParseError desc data l s)) =
         (if LogHasSpace (state s)
          then error_log (state s) @ [column_error_text s desc data (- l)]
          else error_log (state s))"
    using neg by (simp add: ReportColumnParseError_fields LogError_def LogHasSpace_def)
  have status: "parse_status (ReportColumnParseError desc data l s) =
         (if abort_on_error (state s) \<and> ok (parse_status s)
          then Error (column_error_text s desc data (- l))
          else parse_status s)"
    using neg by (simp add: ReportColumnParseError_fields)
  from abs step run log status show ?thesis
    unfolding msg by blast
qed

theorem negative_length_is_escaped_absolute_length_witness:
  "sint (- 3 :: 32 word) < 0 \<and> sint (- 3 :: 32 word) \<noteq> - (2 ^ 31)
   \<and> Suc 0 < length (materialized_slots (scan_node demo_probe_scanner))
   \<and> length (materialized_slots (scan_node demo_probe_scanner)) \<le> length demo_escaped_fields
   \<and> length (materialized_slots (scan_node demo_probe_scanner)) \<le> length (error_fields demo_mem)
   \<and> len (demo_escaped_fields ! Suc 0) = - 3
   \<and> conjuncts demo_probe_scanner = Some [demo_conjunct]
   \<and> sint (- (- 3) :: 32 word) = 3
   \<and> mem_before demo_probe_scanner demo_escaped_fields None demo_mem (Suc 0) =
       \<lparr>tuple = [0, 0, 0], tuple_row = [None], error_fields = [0, 1], error_in_row = 0\<rparr>
   \<and> mem_before demo_probe_scanner demo_escaped_fields None demo_mem (Suc (Suc 0)) =
       \<lparr>tuple = [0, 0, 3], tuple_row = [None], error_fields = [0, 0], error_in_row = 0\<rparr>
   \<and> WriteCompleteTuple demo_probe_scanner demo_escaped_fields None demo_mem =
       Inr (False, \<lparr>tuple = [0, 0, 3], tuple_row = [Some [0, 0, 3]],
                      error_fields = [0, 0], error_in_row = 0\<rparr>)
   \<and> error_log (state (ReportColumnParseError (demo_slots ! 1) ''abcd'' (- 3) demo_probe_scanner)) =
       [''Error converting column: 2 TO STRING (Data is: abc)'']
   \<and> parse_status (ReportColumnParseError (demo_slots ! 1) ''abcd'' (- 3) demo_probe_scanner) = OK"
proof -
  have h1: "sint (- 3 :: 32 word) < 0" by simp
  have h2: "sint (- 3 :: 32 word) \<noteq> - (2 ^ 31)" by simp
  have h3: "Suc 0 < length (materialized_slots (scan_node demo_probe_scanner))"
    by (simp add: demo_defs)
  have h4: "length (materialized_slots (scan_node demo_probe_scanner)) \<le> length demo_escaped_fields"
    by (simp add: demo_defs)
  have h5: "length (materialized_slots (scan_node demo_probe_scanner)) \<le> length (error_fields demo_mem)"
    by (simp add: demo_defs)
  have h6: "len (demo_escaped_fields ! Suc 0) = - 3" by (simp add: demo_defs)
  have h7: "conjuncts demo_probe_scanner = Some [demo_conjunct]" by (simp add: demo_defs)
  have before: "mem_before demo_probe_scanner demo_escaped_fields None demo_mem (Suc 0) =
       \<lparr>tuple = [0, 0, 0], tuple_row = [None], error_fields = [0, 1], error_in_row = 0\<rparr>"
    by (simp add: mem_before_def write_slot_step_def InitTuple_def memset0_def demo_defs Let_def)
  note inst = negative_length_is_escaped_absolute_length
      [where i = "Suc 0" and s = demo_probe_scanner and flds = demo_escaped_fields and m = demo_mem
         and tt = None and desc = "demo_slots ! 1" and data = "''abcd''",
       OF h1 h2 h3 h4 h5 h6 h7, unfolded before]
  from inst have a: "sint (- (- 3) :: 32 word) = 3" by simp
  from inst have after: "mem_before demo_probe_scanner demo_escaped_fields None demo_mem (Suc (Suc 0)) =
       \<lparr>tuple = [0, 0, 3], tuple_row = [None], error_fields = [0, 0], error_in_row = 0\<rparr>"
    by (simp add: demo_defs)
  from inst obtain r m' where
    run: "WriteCompleteTuple demo_probe_scanner demo_escaped_fields None demo_mem = Inr (r, m')"
    and m': "m' = (let m2 = fold (write_slot_step demo_probe_scanner demo_escaped_fields)
                               [Suc (Suc 0)..<length (materialized_slots (scan_node demo_probe_scanner))]
                               (mem_before demo_probe_scanner demo_escaped_fields None demo_mem (Suc (Suc 0)))
                    in m2\<lparr>tuple_row := SetTuple (tuple_idx (scan_node demo_probe_scanner))
                                         (tuple m2) (tuple_row m2)\<rparr>)"
    by blast
  have n: "[Suc (Suc 0)..<length (materialized_slots (scan_node demo_probe_scanner))] = []"
    by (simp add: demo_defs)
  have mem: "m' = \<lparr>tuple = [0, 0, 3], tuple_row = [Some [0, 0, 3]],
                      error_fields = [0, 0], error_in_row = 0\<rparr>"
    unfolding m' n after by (simp add: SetTuple_def demo_defs)
  have "WriteCompleteTuple demo_probe_scanner demo_escaped_fields None demo_mem =
       Inr (False, \<lparr>tuple = [0, 0, 3], tuple_row = [Some [0, 0, 3]],
                      error_fields = [0, 0], error_in_row = 0\<rparr>)"
    by (simp add: WriteCompleteTuple_def write_slot_step_def InitTuple_def memset0_def
        EvalConjuncts_def SetTuple_def demo_defs upt_2 Let_def)
  with run have "\<not> r" by simp
  with run mem have whole: "WriteCompleteTuple demo_probe_scanner demo_escaped_fields None demo_mem =
       Inr (False, \<lparr>tuple = [0, 0, 3], tuple_row = [Some [0, 0, 3]],
                      error_fields = [0, 0], error_in_row = 0\<rparr>)"
    by simp
  from inst have log: "error_log (state (ReportColumnParseError (demo_slots ! 1) ''abcd'' (- 3)
                                   demo_probe_scanner)) =
       [''Error converting column: 2 TO STRING (Data is: abc)'']"
    by (simp add: demo_defs LogHasSpace_def show_int_def)
  from inst have st: "parse_status (ReportColumnParseError (demo_slots ! 1) ''abcd'' (- 3)
                                   demo_probe_scanner) = OK"
    by (simp add: demo_defs ok_def)
  from h1 h2 h3 h4 h5 h6 h7 a before after whole log st show ?thesis by blast
qed

section \<open>Reporting a row with one malformed column\<close>

lemma report_slot_step_clear:
  "errors ! i = 0 \<Longrightarrow> report_slot_step flds i (errors, s) = (errors, s)"
  by (simp add: report_slot_step_def)

lemma report_fold_clear:
  "\<forall>j \<in> set xs. errors ! j = 0 \<Longrightarrow> fold (report_slot_step flds) xs (errors, s) = (errors, s)"
  by (induction xs) (simp_all add: report_slot_step_clear)

lemma upt_split_at: "i < n \<Longrightarrow> [0..<n] = [0..<i] @ i # [Suc i..<n]"
proof -
  assume i: "i < n"
  have "[0..<n] = [0..<i] @ [i..<n]"
    using upt_add_eq_append [of 0 i "n - i"] i by simp
  then show ?thesis using i by (simp add: upt_conv_Cons)
qed

lemma report_fold_one:
  assumes "i < n" "errors ! i \<noteq> 0" "\<forall>j<n. j \<noteq> i \<longrightarrow> errors ! j = 0" "n \<le> length errors"
  shows "fold (report_slot_step flds) [0..<n] (errors, s) =
           (errors[i := 0], ReportColumnParseError (materialized_slots (scan_node s) ! i)
             (start (flds ! i)) (len (flds ! i)) s)"
proof -
  have a: "fold (report_slot_step flds) [0..<i] (errors, s) = (errors, s)"
    using assms by (intro report_fold_clear) auto
  have b: "report_slot_step flds i (errors, s) =
      (errors[i := 0], ReportColumnParseError (materialized_slots (scan_node s) ! i)
             (start (flds ! i)) (len (flds ! i)) s)"
    using assms by (simp add: report_slot_step_def)
  have c: "\<forall>j \<in> set [Suc i..<n]. (errors[i := 0]) ! j = 0"
    using assms by auto
  show ?thesis
    unfolding upt_split_at [OF assms(1)] using a b report_fold_clear [OF c] by simp
qed

text \<open>
  C6, as the code has it. For a row with exactly one flagged slot \<open>i\<close> among the
  materialized slots, and a subclass that describes the row,
  \<^verbatim>\<open>ReportTupleParseError\<close> returns normally, clears the flag (so that no flag of a
  materialized slot is set afterwards) and adds exactly 1 to the per-file error counter.
  When the log has space it appends exactly one column message, the one of slot \<open>i\<close>,
  followed by the row message if the log still has space then; when the log is full it
  appends nothing.
\<close>

theorem ReportTupleParseError_one_flag:
  assumes i: "i < length (materialized_slots (scan_node s))"
    and flag: "errors ! i \<noteq> 0"
    and others: "\<forall>j < length (materialized_slots (scan_node s)). j \<noteq> i \<longrightarrow> errors ! j = 0"
    and len: "length (materialized_slots (scan_node s)) \<le> length errors"
    and fl: "length (materialized_slots (scan_node s)) \<le> length flds"
    and row: "log_row row_idx = Inr record_text"
  shows "\<exists>r s'. ReportTupleParseError log_row flds errors row_idx s = Inr (r, errors[i := 0], s')
      \<and> num_errors_in_file s' = num_errors_in_file s + 1
      \<and> error_log (state s') = error_log (state s) @
           (if LogHasSpace (state s)
            then column_error_text s (materialized_slots (scan_node s) ! i) (start (flds ! i))
                   (if sint (len (flds ! i)) < 0 then - len (flds ! i) else len (flds ! i))
                 # (if Suc (length (error_log (state s))) < max_errors (state s)
                    then [row_error_text s record_text] else [])
            else [])
      \<and> (\<forall>j < length (materialized_slots (scan_node s)). errors[i := 0] ! j = 0)"
proof -
  let ?s1 = "ReportColumnParseError (materialized_slots (scan_node s) ! i)
             (start (flds ! i)) (len (flds ! i)) s"
  have fold: "fold (report_slot_step flds) [0..<length (materialized_slots (scan_node s))] (errors, s)
      = (errors[i := 0], ?s1)"
    by (rule report_fold_one [OF i flag others len])
  have zero: "\<forall>j < length (materialized_slots (scan_node s)). errors[i := 0] ! j = 0"
  proof (intro allI impI)
    fix j assume j: "j < length (materialized_slots (scan_node s))"
    show "errors[i := 0] ! j = 0"
    proof (cases "j = i")
      case True
      with j len show ?thesis by simp
    next
      case False
      with j others show ?thesis by simp
    qed
  qed
  show ?thesis
    using zero
    by (auto simp add: ReportTupleParseError_def fold row ReportColumnParseError_fields Let_def
        LogHasSpace_def LogError_def ReportFileErrors_def row_error_text_def ok_def)
qed

theorem ReportTupleParseError_one_flag_witness:
  "(1::nat) < length (materialized_slots (scan_node demo_scanner))
   \<and> [0, 1 :: byte] ! 1 \<noteq> 0
   \<and> [0, 1 :: byte] ! 0 = 0
   \<and> length (materialized_slots (scan_node demo_scanner)) \<le> length [0, 1 :: byte]
   \<and> length (materialized_slots (scan_node demo_scanner)) \<le> length demo_escaped_fields
   \<and> demo_log_row 4 = Inr ''row 4''
   \<and> (\<exists>r s'. ReportTupleParseError demo_log_row demo_escaped_fields [0, 1] 4 demo_scanner
               = Inr (r, [0, 0], s')
        \<and> num_errors_in_file s' = 1
        \<and> error_log (state s') =
            [''Error converting column: 2 TO STRING (Data is: abc)'',
             ''file: f.txt'' @ [CHR 0x0A] @ ''record: row 4''])"
proof -
  have h1: "(1::nat) < length (materialized_slots (scan_node demo_scanner))"
    by (simp add: demo_defs)
  have h2: "[0, 1 :: byte] ! 1 \<noteq> 0" by simp
  have h3: "\<forall>j < length (materialized_slots (scan_node demo_scanner)). j \<noteq> 1 \<longrightarrow> [0, 1 :: byte] ! j = 0"
    by (simp add: demo_defs less_Suc_eq)
  have h4: "length (materialized_slots (scan_node demo_scanner)) \<le> length [0, 1 :: byte]"
    by (simp add: demo_defs)
  have h5: "demo_log_row 4 = Inr ''row 4''"
    by (simp add: demo_log_row_def show_int_def)
  have h6: "length (materialized_slots (scan_node demo_scanner)) \<le> length demo_escaped_fields"
    by (simp add: demo_defs)
  from ReportTupleParseError_one_flag
    [where i = 1 and s = demo_scanner and errors = "[0, 1 :: byte]" and log_row = demo_log_row
       and row_idx = 4 and record_text = "''row 4''" and flds = demo_escaped_fields,
     OF h1 h2 h3 h4 h6 h5]
  obtain r s' where
    "ReportTupleParseError demo_log_row demo_escaped_fields [0, 1] 4 demo_scanner
        = Inr (r, [0, 1][1 := 0], s')"
    "num_errors_in_file s' = num_errors_in_file demo_scanner + 1"
    "error_log (state s') = error_log (state demo_scanner) @
           (if LogHasSpace (state demo_scanner)
            then column_error_text demo_scanner (materialized_slots (scan_node demo_scanner) ! 1)
                   (start (demo_escaped_fields ! 1))
                   (if sint (len (demo_escaped_fields ! 1)) < 0 then - len (demo_escaped_fields ! 1)
                    else len (demo_escaped_fields ! 1))
                 # (if Suc (length (error_log (state demo_scanner))) < max_errors (state demo_scanner)
                    then [row_error_text demo_scanner ''row 4''] else [])
            else [])"
    by blast
  then have "ReportTupleParseError demo_log_row demo_escaped_fields [0, 1] 4 demo_scanner
               = Inr (r, [0, 0], s')
        \<and> num_errors_in_file s' = 1
        \<and> error_log (state s') =
            [''Error converting column: 2 TO STRING (Data is: abc)'',
             ''file: f.txt'' @ [CHR 0x0A] @ ''record: row 4'']"
    by (simp add: demo_defs LogHasSpace_def column_error_text_def row_error_text_def show_int_def)
  with h1 h2 h4 h5 h6 show ?thesis by auto
qed

text \<open>
  The claim as the spec words it (exactly one column message is logged) fails when the
  log is full: the row is counted and the flag is cleared, and nothing is logged.
\<close>

theorem ReportTupleParseError_full_log_counterexample:
  "ReportTupleParseError demo_log_row demo_escaped_fields [0, 1] 4 demo_full_log_scanner
     = Inr (True, [0, 0], demo_full_log_scanner\<lparr>num_errors_in_file := 1\<rparr>)
   \<and> error_log (state (demo_full_log_scanner\<lparr>num_errors_in_file := 1\<rparr>)) = []"
  by (simp add: ReportTupleParseError_def report_slot_step_def ReportColumnParseError_def
      LogHasSpace_def demo_defs upt_2 ok_def Let_def)


section \<open>Committing rows\<close>

text \<open>
  C3. With a current batch in which \<open>n\<close> more rows fit, \<^verbatim>\<open>CommitRows(n)\<close> adds \<open>n\<close> to the
  batch's committed rows and \<open>n\<close> tuple widths to the write cursor. If the batch is then
  full or at its resource limit, it is attached to the context as not final, queued at
  the scan node, and replaced by a fresh batch with the cursor at its start. The status
  returned is the cancellation status if the context is cancelled, else the status of
  the query-wide check if that is not ok, else ok.
\<close>

theorem CommitRows_result:
  assumes b: "batch s = Some b" and fits: "n \<le> capacity b - num_rows b"
  shows "\<exists>st s'. CommitRows n s = Inr (st, s')
     \<and> st = (if cancelled (scanner_context s) then CANCELLED
             else if query_status (state s) \<noteq> OK then query_status (state s) else OK)
     \<and> (if num_rows b + n = capacity b \<or> at_resource_limit b
        then batch s' = Some (new_RowBatch (tuples_per_row (scan_node s)) (batch_size (state s)))
           \<and> tuple_mem s' = 0
           \<and> materialized_row_batches (scan_node s')
               = materialized_row_batches (scan_node s) @ [b\<lparr>num_rows := num_rows b + n\<rparr>]
           \<and> completed_resources (scanner_context s')
               = completed_resources (scanner_context s) @ [(b\<lparr>num_rows := num_rows b + n\<rparr>, False)]
        else batch s' = Some (b\<lparr>num_rows := num_rows b + n\<rparr>)
           \<and> tuple_mem s' = tuple_mem s + int (byte_size (scan_node s)) * n
           \<and> materialized_row_batches (scan_node s') = materialized_row_batches (scan_node s)
           \<and> completed_resources (scanner_context s') = completed_resources (scanner_context s))"
  using b fits
  by (auto simp add: CommitRows_def Let_def RowBatch_CommitRows_def IsFull_def AtResourceLimit_def
      StartNewRowBatch_def AddMaterializedRowBatch_def AttachCompletedResources_def
      CheckQueryState_def ok_def)

theorem CommitRows_result_witness:
  "batch demo_partition_scanner = Some demo_batch
   \<and> (2::int) \<le> capacity demo_batch - num_rows demo_batch
   \<and> (\<exists>s'. CommitRows 2 demo_partition_scanner = Inr (CANCELLED, s')
         \<and> batch s' = Some (new_RowBatch 1 2)
         \<and> tuple_mem s' = 0
         \<and> materialized_row_batches (scan_node s') = [demo_batch\<lparr>num_rows := 2\<rparr>]
         \<and> completed_resources (scanner_context s') = [(demo_batch\<lparr>num_rows := 2\<rparr>, False)])"
proof -
  have h1: "batch demo_partition_scanner = Some demo_batch"
    by (simp add: demo_defs)
  have h2: "(2::int) \<le> capacity demo_batch - num_rows demo_batch"
    by (simp add: demo_defs)
  show ?thesis
    using CommitRows_result [OF h1 h2] h1 h2
    by (simp add: demo_defs)
qed

section \<open>Stamping template rows\<close>

lemma stamp_rows_ok:
  assumes "0 \<le> num_rows b" "num_rows b + int k \<le> capacity b" "length (rows b) = nat (capacity b)"
  shows "\<exists>b'. stamp_rows k tidx tpl b = Inr b'
     \<and> num_rows b' = num_rows b + int k \<and> capacity b' = capacity b
     \<and> length (rows b') = length (rows b)
     \<and> (\<forall>i. i < nat (num_rows b) \<longrightarrow> rows b' ! i = rows b ! i)
     \<and> (\<forall>i. nat (num_rows b) \<le> i \<and> i < nat (num_rows b) + k
            \<longrightarrow> rows b' ! i = SetTuple tidx tpl (rows b ! i))"
  using assms
proof (induction k arbitrary: b)
  case 0
  then show ?case by auto
next
  case (Suc k)
  let ?r = "num_rows b"
  let ?b1 = "CommitLastRow (store_row ?r (SetTuple tidx tpl (rows b ! nat ?r)) b)"
  have notfull: "\<not> IsFull b" using Suc.prems by (simp add: IsFull_def)
  have add: "AddRow b = ?r" using Suc.prems by (simp add: AddRow_def AddRows_def)
  have valid: "AddRow b \<noteq> INVALID_ROW_INDEX" using Suc.prems add by (simp add: INVALID_ROW_INDEX_def)
  have get: "GetRow b ?r = Inr (rows b ! nat ?r)" using Suc.prems by (simp add: GetRow_def)
  have step: "stamp_rows (Suc k) tidx tpl b = stamp_rows k tidx tpl ?b1"
    using notfull valid get add by simp
  have p1: "0 \<le> num_rows ?b1" using Suc.prems
    by (simp add: CommitLastRow_def RowBatch_CommitRows_def store_row_def)
  have n1: "num_rows ?b1 = ?r + 1"
    by (simp add: CommitLastRow_def RowBatch_CommitRows_def store_row_def)
  have c1: "capacity ?b1 = capacity b"
    by (simp add: CommitLastRow_def RowBatch_CommitRows_def store_row_def)
  have r1: "rows ?b1 = (rows b)[nat ?r := SetTuple tidx tpl (rows b ! nat ?r)]"
    by (simp add: CommitLastRow_def RowBatch_CommitRows_def store_row_def)
  have p2: "num_rows ?b1 + int k \<le> capacity ?b1" using Suc.prems n1 c1 by simp
  have p3: "length (rows ?b1) = nat (capacity ?b1)" using Suc.prems r1 c1 by simp
  from Suc.IH [OF p1 p2 p3] obtain b' where
    run: "stamp_rows k tidx tpl ?b1 = Inr b'" and
    nr: "num_rows b' = num_rows ?b1 + int k" and cap: "capacity b' = capacity ?b1" and
    ln: "length (rows b') = length (rows ?b1)" and
    low: "\<forall>i. i < nat (num_rows ?b1) \<longrightarrow> rows b' ! i = rows ?b1 ! i" and
    high: "\<forall>i. nat (num_rows ?b1) \<le> i \<and> i < nat (num_rows ?b1) + k
            \<longrightarrow> rows b' ! i = SetTuple tidx tpl (rows ?b1 ! i)"
    by blast
  have nat1: "nat (num_rows ?b1) = Suc (nat ?r)" using Suc.prems n1 by simp
  have inrange: "nat ?r < length (rows b)" using Suc.prems by simp
  have A: "\<forall>i. i < nat ?r \<longrightarrow> rows b' ! i = rows b ! i"
    using low nat1 r1 by simp
  have B: "\<forall>i. nat ?r \<le> i \<and> i < nat ?r + Suc k \<longrightarrow> rows b' ! i = SetTuple tidx tpl (rows b ! i)"
  proof (intro allI impI)
    fix i assume i: "nat ?r \<le> i \<and> i < nat ?r + Suc k"
    show "rows b' ! i = SetTuple tidx tpl (rows b ! i)"
    proof (cases "i = nat ?r")
      case True
      then have "rows b' ! i = rows ?b1 ! i" using low nat1 by simp
      with True inrange r1 show ?thesis by simp
    next
      case False
      with i have "nat (num_rows ?b1) \<le> i \<and> i < nat (num_rows ?b1) + k" using nat1 by simp
      with high have "rows b' ! i = SetTuple tidx tpl (rows ?b1 ! i)" by blast
      with False r1 show ?thesis by simp
    qed
  qed
  from step run nr cap ln A B n1 c1 r1 show ?case by simp
qed

lemma stamp_row_at_length: "length (stamp_row_at tidx tpl p m) = length m"
  by (simp add: stamp_row_at_def)

lemma stamp_row_at_nth:
  "p < length m \<Longrightarrow> stamp_row_at tidx tpl p m ! i = (if i = p then SetTuple tidx tpl (m ! p) else m ! i)"
  by (simp add: stamp_row_at_def nth_list_update)

lemma stamp_fold:
  assumes "row + c \<le> length mem"
  shows "length (fold (\<lambda>n. stamp_row_at tidx tpl (row + n)) [a..<c] mem) = length mem
     \<and> (\<forall>i. fold (\<lambda>n. stamp_row_at tidx tpl (row + n)) [a..<c] mem ! i =
            (if row + a \<le> i \<and> i < row + c then SetTuple tidx tpl (mem ! i) else mem ! i))"
  using assms
proof (induction c)
  case 0
  then show ?case by auto
next
  case (Suc c)
  show ?case
  proof (cases "a \<le> c")
    case True
    then have up: "[a..<Suc c] = [a..<c] @ [c]" by simp
    from Suc have IH: "length (fold (\<lambda>n. stamp_row_at tidx tpl (row + n)) [a..<c] mem) = length mem"
      "\<And>i. fold (\<lambda>n. stamp_row_at tidx tpl (row + n)) [a..<c] mem ! i =
            (if row + a \<le> i \<and> i < row + c then SetTuple tidx tpl (mem ! i) else mem ! i)"
      by simp_all
    show ?thesis
      using Suc.prems True
      by (auto simp add: up stamp_row_at_length stamp_row_at_nth IH)
  next
    case False
    then show ?thesis by auto
  qed
qed

text \<open>
  C4. Let the scanner have a template tuple and let \<open>n \<ge> 1\<close> rows fit in the batch
  (in the row memory, for the row-cursor variant). Both variants call \<^verbatim>\<open>EvalConjuncts\<close>
  exactly once, on the first row with the template tuple stored in it. If that row is
  rejected, the batch variant returns 0 and leaves the number of committed rows as it
  was, and the row-cursor variant returns 0. If it is accepted, the batch variant commits
  exactly \<open>n\<close> rows and the row-cursor variant returns \<open>n\<close>, and each of the \<open>n\<close> rows
  holds the template tuple at the scan node's tuple index.
\<close>

theorem WriteEmptyTuples_template:
  assumes tpl: "template_tuple s = Some tpl" and cs: "conjuncts s = Some cs"
    and n: "1 \<le> n"
    and rows_ok: "0 \<le> num_rows b" "num_rows b + n \<le> capacity b" "length (rows b) = nat (capacity b)"
    and mem_ok: "row + nat n \<le> length row_mem"
  shows "(if EvalConjuncts cs (SetTuple (tuple_idx (scan_node s)) tpl (rows b ! nat (num_rows b)))
          then \<exists>r b'. WriteEmptyTuples_batch s b n
                   = Inr (r, b', [SetTuple (tuple_idx (scan_node s)) tpl (rows b ! nat (num_rows b))])
                 \<and> num_rows b' = num_rows b + n
                 \<and> (\<forall>i. nat (num_rows b) \<le> i \<and> i < nat (num_rows b) + nat n
                       \<longrightarrow> rows b' ! i = SetTuple (tuple_idx (scan_node s)) tpl (rows b ! i))
          else \<exists>b'. WriteEmptyTuples_batch s b n
                   = Inr (0, b', [SetTuple (tuple_idx (scan_node s)) tpl (rows b ! nat (num_rows b))])
                 \<and> num_rows b' = num_rows b)
       \<and> (if EvalConjuncts cs (SetTuple (tuple_idx (scan_node s)) tpl (row_mem ! row))
          then \<exists>mem'. WriteEmptyTuples_context s row_mem row n
                   = Inr (n, mem', [SetTuple (tuple_idx (scan_node s)) tpl (row_mem ! row)])
                 \<and> length mem' = length row_mem
                 \<and> (\<forall>i. row \<le> i \<and> i < row + nat n
                       \<longrightarrow> mem' ! i = SetTuple (tuple_idx (scan_node s)) tpl (row_mem ! i))
          else \<exists>mem'. WriteEmptyTuples_context s row_mem row n
                   = Inr (0, mem', [SetTuple (tuple_idx (scan_node s)) tpl (row_mem ! row)]))"
proof -
  let ?tidx = "tuple_idx (scan_node s)"
  let ?r = "num_rows b"
  let ?first = "SetTuple ?tidx tpl (rows b ! nat ?r)"
  let ?rb1 = "store_row ?r ?first b"
  let ?rb2 = "CommitLastRow ?rb1"
  have add: "AddRow b = ?r" using rows_ok n by (simp add: AddRow_def AddRows_def)
  have get: "GetRow b ?r = Inr (rows b ! nat ?r)" using rows_ok n by (simp add: GetRow_def)
  have inrange: "nat ?r < length (rows b)" using rows_ok n by simp
  have batch_fail: "\<not> EvalConjuncts cs ?first \<Longrightarrow>
      WriteEmptyTuples_batch s b n = Inr (0, ?rb1, [?first]) \<and> num_rows ?rb1 = ?r"
    using n by (simp add: WriteEmptyTuples_batch_def tpl cs add get Let_def store_row_def)
  have batch_pass: "\<exists>r b'. WriteEmptyTuples_batch s b n = Inr (r, b', [?first])
                 \<and> num_rows b' = ?r + n
                 \<and> (\<forall>i. nat ?r \<le> i \<and> i < nat ?r + nat n
                       \<longrightarrow> rows b' ! i = SetTuple ?tidx tpl (rows b ! i))"
    if pass: "EvalConjuncts cs ?first"
  proof -
    have n2: "num_rows ?rb2 = ?r + 1" and c2: "capacity ?rb2 = capacity b"
      and r2: "rows ?rb2 = (rows b)[nat ?r := ?first]"
      by (simp_all add: CommitLastRow_def RowBatch_CommitRows_def store_row_def)
    have p1: "0 \<le> num_rows ?rb2" using rows_ok n2 by simp
    have p2: "num_rows ?rb2 + int (nat (n - 1)) \<le> capacity ?rb2" using rows_ok n n2 c2 by simp
    have p3: "length (rows ?rb2) = nat (capacity ?rb2)" using rows_ok r2 c2 by simp
    from stamp_rows_ok [OF p1 p2 p3, of ?tidx tpl] obtain b' where
      run: "stamp_rows (nat (n - 1)) ?tidx tpl ?rb2 = Inr b'" and
      nr: "num_rows b' = num_rows ?rb2 + int (nat (n - 1))" and
      low: "\<forall>i. i < nat (num_rows ?rb2) \<longrightarrow> rows b' ! i = rows ?rb2 ! i" and
      high: "\<forall>i. nat (num_rows ?rb2) \<le> i \<and> i < nat (num_rows ?rb2) + nat (n - 1)
            \<longrightarrow> rows b' ! i = SetTuple ?tidx tpl (rows ?rb2 ! i)"
      by blast
    have dcheck: "n - 1 \<le> capacity ?rb2 - num_rows ?rb2" using rows_ok n n2 c2 by simp
    have res: "WriteEmptyTuples_batch s b n = Inr (n - 1, b', [?first])"
      using n pass dcheck run
      by (simp add: WriteEmptyTuples_batch_def tpl cs add get Let_def)
    have nat2: "nat (num_rows ?rb2) = Suc (nat ?r)" using rows_ok n2 by simp
    have cnt: "num_rows b' = ?r + n" using nr n2 n by simp
    have all: "\<forall>i. nat ?r \<le> i \<and> i < nat ?r + nat n
                       \<longrightarrow> rows b' ! i = SetTuple ?tidx tpl (rows b ! i)"
    proof (intro allI impI)
      fix i assume i: "nat ?r \<le> i \<and> i < nat ?r + nat n"
      show "rows b' ! i = SetTuple ?tidx tpl (rows b ! i)"
      proof (cases "i = nat ?r")
        case True
        then have "rows b' ! i = rows ?rb2 ! i" using low nat2 by simp
        with True inrange r2 show ?thesis by simp
      next
        case False
        with i n have "nat (num_rows ?rb2) \<le> i \<and> i < nat (num_rows ?rb2) + nat (n - 1)"
          using nat2 by auto
        with high have "rows b' ! i = SetTuple ?tidx tpl (rows ?rb2 ! i)" by blast
        with False r2 show ?thesis by simp
      qed
    qed
    from res cnt all show ?thesis by blast
  qed
  let ?mem1 = "stamp_row_at ?tidx tpl row row_mem"
  let ?cfirst = "SetTuple ?tidx tpl (row_mem ! row)"
  have rowin: "row < length row_mem" using mem_ok n by simp
  have first: "?mem1 ! row = ?cfirst" using rowin by (simp add: stamp_row_at_nth)
  have ctx_fail: "\<not> EvalConjuncts cs ?cfirst \<Longrightarrow>
      WriteEmptyTuples_context s row_mem row n = Inr (0, ?mem1, [?cfirst])"
    using n by (simp add: WriteEmptyTuples_context_def tpl cs first Let_def)
  have ctx_pass: "\<exists>mem'. WriteEmptyTuples_context s row_mem row n = Inr (n, mem', [?cfirst])
                 \<and> length mem' = length row_mem
                 \<and> (\<forall>i. row \<le> i \<and> i < row + nat n
                       \<longrightarrow> mem' ! i = SetTuple ?tidx tpl (row_mem ! i))"
    if pass: "EvalConjuncts cs ?cfirst"
  proof -
    let ?mem' = "fold (\<lambda>k. stamp_row_at ?tidx tpl (row + k)) [1..<nat n] ?mem1"
    have res: "WriteEmptyTuples_context s row_mem row n = Inr (n, ?mem', [?cfirst])"
      using n pass by (simp add: WriteEmptyTuples_context_def tpl cs first Let_def)
    have m1: "row + nat n \<le> length ?mem1" using mem_ok by (simp add: stamp_row_at_length)
    note sf = stamp_fold [OF m1, of ?tidx tpl 1]
    have len: "length ?mem' = length row_mem" using sf by (simp add: stamp_row_at_length)
    have all: "\<forall>i. row \<le> i \<and> i < row + nat n \<longrightarrow> ?mem' ! i = SetTuple ?tidx tpl (row_mem ! i)"
    proof (intro allI impI)
      fix i assume i: "row \<le> i \<and> i < row + nat n"
      have v: "?mem' ! i = (if row + 1 \<le> i \<and> i < row + nat n then SetTuple ?tidx tpl (?mem1 ! i) else ?mem1 ! i)"
        using sf by blast
      show "?mem' ! i = SetTuple ?tidx tpl (row_mem ! i)"
      proof (cases "i = row")
        case True
        with v first show ?thesis by simp
      next
        case False
        with i v rowin show ?thesis by (simp add: stamp_row_at_nth)
      qed
    qed
    from res len all show ?thesis by blast
  qed
  show ?thesis
    using batch_fail batch_pass ctx_fail ctx_pass by (simp split: if_splits) 
qed

theorem WriteEmptyTuples_template_witness:
  "template_tuple demo_partition_scanner = Some [0, 57, 0]
   \<and> conjuncts demo_partition_scanner = Some [demo_conjunct]
   \<and> (1::int) \<le> 2
   \<and> 0 \<le> num_rows demo_batch \<and> num_rows demo_batch + 2 \<le> capacity demo_batch
   \<and> length (rows demo_batch) = nat (capacity demo_batch)
   \<and> 1 + nat 2 \<le> length [[None], [None], [None :: Tuple option]]
   \<and> (\<exists>r b'. WriteEmptyTuples_batch demo_partition_scanner demo_batch 2
                 = Inr (r, b', [[Some [0, 57, 0]]])
          \<and> num_rows b' = 2)
   \<and> (\<exists>mem'. WriteEmptyTuples_context demo_partition_scanner [[None], [None], [None]] 1 2
                 = Inr (2, mem', [[Some [0, 57, 0]]])
          \<and> length mem' = 3)"
proof -
  have h1: "template_tuple demo_partition_scanner = Some [0, 57, 0]"
    by (simp add: demo_defs)
  have h2: "conjuncts demo_partition_scanner = Some [demo_conjunct]"
    by (simp add: demo_defs)
  have h3: "(1::int) \<le> 2" by simp
  have h4: "0 \<le> num_rows demo_batch" by (simp add: demo_defs)
  have h5: "num_rows demo_batch + 2 \<le> capacity demo_batch" by (simp add: demo_defs)
  have h6: "length (rows demo_batch) = nat (capacity demo_batch)" by (simp add: demo_defs)
  have h7: "1 + nat 2 \<le> length [[None], [None], [None :: Tuple option]]" by simp
  have first_b: "SetTuple (tuple_idx (scan_node demo_partition_scanner)) [0, 57, 0]
                   (rows demo_batch ! nat (num_rows demo_batch)) = [Some [0, 57, 0]]"
    by (simp add: SetTuple_def demo_defs)
  have first_c: "SetTuple (tuple_idx (scan_node demo_partition_scanner)) [0, 57, 0]
                   ([[None], [None], [None]] ! 1) = [Some [0, 57, 0]]"
    by (simp add: SetTuple_def demo_defs)
  have pass: "EvalConjuncts [demo_conjunct] [Some [0, 57, 0]]"
    by (simp add: EvalConjuncts_def demo_defs)
  note inst = WriteEmptyTuples_template [OF h1 h2 h3 h4 h5 h6 h7, unfolded first_b first_c]
  from inst pass
  have b_part: "\<exists>r b'. WriteEmptyTuples_batch demo_partition_scanner demo_batch 2
                 = Inr (r, b', [[Some [0, 57, 0]]])
          \<and> num_rows b' = num_rows demo_batch + 2
          \<and> (\<forall>i. nat (num_rows demo_batch) \<le> i \<and> i < nat (num_rows demo_batch) + nat 2
                \<longrightarrow> rows b' ! i
                  = SetTuple (tuple_idx (scan_node demo_partition_scanner)) [0, 57, 0]
                      (rows demo_batch ! i))"
    by simp
  from inst pass
  have c_part: "\<exists>mem'. WriteEmptyTuples_context demo_partition_scanner [[None], [None], [None]] 1 2
                 = Inr (2, mem', [[Some [0, 57, 0]]])
          \<and> length mem' = length [[None], [None], [None :: Tuple option]]
          \<and> (\<forall>i. 1 \<le> i \<and> i < 1 + nat 2
                \<longrightarrow> mem' ! i
                  = SetTuple (tuple_idx (scan_node demo_partition_scanner)) [0, 57, 0]
                      ([[None], [None], [None]] ! i))"
    by simp
  have nr: "num_rows demo_batch + 2 = 2" by (simp add: demo_defs)
  from b_part nr have b_res: "\<exists>r b'. WriteEmptyTuples_batch demo_partition_scanner demo_batch 2
                 = Inr (r, b', [[Some [0, 57, 0]]]) \<and> num_rows b' = 2"
    by auto
  from c_part have c_res: "\<exists>mem'. WriteEmptyTuples_context demo_partition_scanner
                 [[None], [None], [None]] 1 2 = Inr (2, mem', [[Some [0, 57, 0]]])
          \<and> length mem' = 3"
    by auto
  from h1 h2 h3 h4 h5 h6 h7 b_res c_res show ?thesis by blast
qed

text \<open>
  When the template row is accepted the batch variant returns \<open>n - 1\<close>, the value of
  \<^verbatim>\<open>num_tuples\<close> after the decrement that follows the first commit, while the batch holds
  \<open>n\<close> more rows.
\<close>

lemma WriteEmptyTuples_batch_return_value:
  "WriteEmptyTuples_batch demo_partition_scanner demo_batch 2
     = Inr (1, \<lparr>capacity = 2, num_rows = 2, rows = [[Some [0, 57, 0]], [Some [0, 57, 0]]],
                at_resource_limit = False\<rparr>, [[Some [0, 57, 0]]])"
  by (simp add: WriteEmptyTuples_batch_def demo_defs AddRow_def AddRows_def GetRow_def
      SetTuple_def store_row_def EvalConjuncts_def CommitLastRow_def RowBatch_CommitRows_def
      IsFull_def INVALID_ROW_INDEX_def Let_def)

text \<open>
  C10. For \<open>n = 0\<close> the row-cursor variant returns 0, leaves the row memory as it was and
  calls \<^verbatim>\<open>EvalConjuncts\<close> on no row. The batch variant asserts \<open>n > 0\<close>: for every
  \<open>n \<le> 0\<close> it ends in that assertion.
\<close>

theorem WriteEmptyTuples_zero_rows:
  "WriteEmptyTuples_context s row_mem row 0 = Inr (0, row_mem, [])
   \<and> (n \<le> 0 \<longrightarrow> WriteEmptyTuples_batch s b n = Inl (DCheckFailed ''num_tuples > 0''))"
  by (simp add: WriteEmptyTuples_context_def WriteEmptyTuples_batch_def)

theorem WriteEmptyTuples_zero_rows_witness:
  "(0::int) \<le> 0
   \<and> WriteEmptyTuples_context demo_partition_scanner [[None]] 0 0 = Inr (0, [[None]], [])
   \<and> WriteEmptyTuples_batch demo_partition_scanner demo_batch 0
       = Inl (DCheckFailed ''num_tuples > 0'')"
  using WriteEmptyTuples_zero_rows [of demo_partition_scanner "[[None]]" 0 0 demo_batch]
  by simp


section \<open>Ineligible configurations\<close>

lemma conjunct_fns_uncompiled:
  assumes "\<exists>c \<in> set cs. codegen_fn c = None"
    and "\<forall>c \<in> set cs. codegen_fn c \<noteq> None \<longrightarrow> scratch_buffer_size c = 0"
  shows "conjunct_fns cs = Inr None"
  using assms
proof (induction cs)
  case Nil
  then show ?case by simp
next
  case (Cons c cs)
  show ?case
  proof (cases "codegen_fn c")
    case None
    then show ?thesis by simp
  next
    case (Some f)
    with Cons.prems have ex: "\<exists>c \<in> set cs. codegen_fn c = None" by auto
    from Cons.prems have all: "\<forall>c \<in> set cs. codegen_fn c \<noteq> None \<longrightarrow> scratch_buffer_size c = 0"
      by simp
    from Cons.prems Some have z: "scratch_buffer_size c = 0" by simp
    from Cons.IH [OF ex all] Some z show ?thesis by simp
  qed
qed


text \<open>
  C8. \<^verbatim>\<open>CodegenWriteCompleteTuple\<close> returns \<^verbatim>\<open>NULL\<close> when a materialized slot is a
  timestamp, when the data is compacted and there are string slots, and when a conjunct
  has no compiled form (the conjuncts that have one having no scratch buffer, which the
  function asserts). \<^verbatim>\<open>InitializeWriteTuplesFn\<close> returns an ok status in every case; when
  the scan node has no generated function, or when there are string slots and an escape
  character or compacted data, it adds 1 to the count of scanners without codegen, leaves
  the count of scanners with codegen alone and does not set \<^verbatim>\<open>write_tuples_fn_\<close>.
\<close>

theorem ineligible_specialization_is_not_an_error:
  "(list_ex (\<lambda>d. slot_type d = TYPE_TIMESTAMP) (materialized_slots node)
      \<longrightarrow> CodegenWriteCompleteTuple node codegen cs = Inr None)
   \<and> (compact_data node \<and> string_slots node \<noteq> []
      \<longrightarrow> CodegenWriteCompleteTuple node codegen cs = Inr None)
   \<and> ((\<exists>c \<in> set cs. codegen_fn c = None)
       \<and> (\<forall>c \<in> set cs. codegen_fn c \<noteq> None \<longrightarrow> scratch_buffer_size c = 0)
      \<longrightarrow> CodegenWriteCompleteTuple node codegen cs = Inr None)
   \<and> fst (InitializeWriteTuplesFn escape_char s) = OK
   \<and> (node_codegen_fn (scan_node s) = None
       \<or> (string_slots (scan_node s) \<noteq> []
           \<and> (escape_char \<noteq> CHR 0x00 \<or> stream_compact_data (scanner_context s)))
      \<longrightarrow> InitializeWriteTuplesFn escape_char s
            = (OK, IncNumScannersCodegenDisabled (s\<lparr>scanner_codegen_fn := node_codegen_fn (scan_node s)\<rparr>))
        \<and> write_tuples_fn (snd (InitializeWriteTuplesFn escape_char s)) = write_tuples_fn s
        \<and> num_scanners_codegen_disabled (scan_node (snd (InitializeWriteTuplesFn escape_char s)))
            = num_scanners_codegen_disabled (scan_node s) + 1
        \<and> num_scanners_codegen_enabled (scan_node (snd (InitializeWriteTuplesFn escape_char s)))
            = num_scanners_codegen_enabled (scan_node s))"
proof -
  have a: "list_ex (\<lambda>d. slot_type d = TYPE_TIMESTAMP) (materialized_slots node)
      \<longrightarrow> CodegenWriteCompleteTuple node codegen cs = Inr None"
    by (simp add: CodegenWriteCompleteTuple_def)
  have b: "compact_data node \<and> string_slots node \<noteq> []
      \<longrightarrow> CodegenWriteCompleteTuple node codegen cs = Inr None"
    by (simp add: CodegenWriteCompleteTuple_def)
  have c: "(\<exists>c \<in> set cs. codegen_fn c = None)
       \<and> (\<forall>c \<in> set cs. codegen_fn c \<noteq> None \<longrightarrow> scratch_buffer_size c = 0)
      \<longrightarrow> CodegenWriteCompleteTuple node codegen cs = Inr None"
    using conjunct_fns_uncompiled [of cs] by (simp add: CodegenWriteCompleteTuple_def)
  have d: "fst (InitializeWriteTuplesFn escape_char s) = OK"
    by (simp add: InitializeWriteTuplesFn_def Let_def split: option.splits)
  have e: "node_codegen_fn (scan_node s) = None
       \<or> (string_slots (scan_node s) \<noteq> []
           \<and> (escape_char \<noteq> CHR 0x00 \<or> stream_compact_data (scanner_context s)))
      \<longrightarrow> InitializeWriteTuplesFn escape_char s
            = (OK, IncNumScannersCodegenDisabled (s\<lparr>scanner_codegen_fn := node_codegen_fn (scan_node s)\<rparr>))
        \<and> write_tuples_fn (snd (InitializeWriteTuplesFn escape_char s)) = write_tuples_fn s
        \<and> num_scanners_codegen_disabled (scan_node (snd (InitializeWriteTuplesFn escape_char s)))
            = num_scanners_codegen_disabled (scan_node s) + 1
        \<and> num_scanners_codegen_enabled (scan_node (snd (InitializeWriteTuplesFn escape_char s)))
            = num_scanners_codegen_enabled (scan_node s)"
    by (auto simp add: InitializeWriteTuplesFn_def IncNumScannersCodegenDisabled_def Let_def
        split: option.splits)
  from a b c d e show ?thesis by blast
qed


theorem ineligible_specialization_is_not_an_error_witness:
  "list_ex (\<lambda>d. slot_type d = TYPE_TIMESTAMP)
     (materialized_slots (demo_node\<lparr>materialized_slots := [\<lparr>slot_type = TYPE_TIMESTAMP, col_pos = 1\<rparr>]\<rparr>))
   \<and> CodegenWriteCompleteTuple
       (demo_node\<lparr>materialized_slots := [\<lparr>slot_type = TYPE_TIMESTAMP, col_pos = 1\<rparr>]\<rparr>)
       demo_codegen [demo_conjunct] = Inr None
   \<and> compact_data (demo_node\<lparr>compact_data := True\<rparr>)
   \<and> string_slots (demo_node\<lparr>compact_data := True\<rparr>) \<noteq> []
   \<and> CodegenWriteCompleteTuple (demo_node\<lparr>compact_data := True\<rparr>) demo_codegen [demo_conjunct]
       = Inr None
   \<and> codegen_fn (demo_conjunct\<lparr>codegen_fn := None\<rparr>) = None
   \<and> CodegenWriteCompleteTuple demo_node demo_codegen [demo_conjunct, demo_conjunct\<lparr>codegen_fn := None\<rparr>]
       = Inr None
   \<and> node_codegen_fn (scan_node demo_scanner) = None
   \<and> fst (InitializeWriteTuplesFn CHR 0x00 demo_scanner) = OK
   \<and> write_tuples_fn (snd (InitializeWriteTuplesFn CHR 0x00 demo_scanner)) = None
   \<and> num_scanners_codegen_disabled (scan_node (snd (InitializeWriteTuplesFn CHR 0x00 demo_scanner))) = 1
   \<and> num_scanners_codegen_enabled (scan_node (snd (InitializeWriteTuplesFn CHR 0x00 demo_scanner))) = 0"
proof -
  let ?ts = "demo_node\<lparr>materialized_slots := [\<lparr>slot_type = TYPE_TIMESTAMP, col_pos = 1\<rparr>]\<rparr>"
  let ?cp = "demo_node\<lparr>compact_data := True\<rparr>"
  let ?cs = "[demo_conjunct, demo_conjunct\<lparr>codegen_fn := None\<rparr>]"
  have h1: "list_ex (\<lambda>d. slot_type d = TYPE_TIMESTAMP) (materialized_slots ?ts)"
    by simp
  have h2: "compact_data ?cp \<and> string_slots ?cp \<noteq> []"
    by (simp add: demo_defs)
  have h3: "(\<exists>c \<in> set ?cs. codegen_fn c = None)
       \<and> (\<forall>c \<in> set ?cs. codegen_fn c \<noteq> None \<longrightarrow> scratch_buffer_size c = 0)"
    by (simp add: demo_defs)
  have h4: "node_codegen_fn (scan_node demo_scanner) = None"
    by (simp add: demo_defs)
  have r1: "CodegenWriteCompleteTuple ?ts demo_codegen [demo_conjunct] = Inr None"
    using ineligible_specialization_is_not_an_error [of ?ts demo_codegen "[demo_conjunct]"] h1
    by blast
  have r2: "CodegenWriteCompleteTuple ?cp demo_codegen [demo_conjunct] = Inr None"
    using ineligible_specialization_is_not_an_error [of ?cp demo_codegen "[demo_conjunct]"] h2
    by blast
  have r3: "CodegenWriteCompleteTuple demo_node demo_codegen ?cs = Inr None"
    using ineligible_specialization_is_not_an_error [of demo_node demo_codegen ?cs] h3
    by blast
  from ineligible_specialization_is_not_an_error [of demo_node demo_codegen ?cs "CHR 0x00" demo_scanner] h4
  have r4: "fst (InitializeWriteTuplesFn CHR 0x00 demo_scanner) = OK"
    and r5: "write_tuples_fn (snd (InitializeWriteTuplesFn CHR 0x00 demo_scanner))
               = write_tuples_fn demo_scanner"
    and r6: "num_scanners_codegen_disabled (scan_node (snd (InitializeWriteTuplesFn CHR 0x00 demo_scanner)))
               = num_scanners_codegen_disabled (scan_node demo_scanner) + 1"
    and r7: "num_scanners_codegen_enabled (scan_node (snd (InitializeWriteTuplesFn CHR 0x00 demo_scanner)))
               = num_scanners_codegen_enabled (scan_node demo_scanner)"
    by blast+
  have v: "write_tuples_fn demo_scanner = None"
    "num_scanners_codegen_disabled (scan_node demo_scanner) = 0"
    "num_scanners_codegen_enabled (scan_node demo_scanner) = 0"
    by (simp_all add: demo_defs)
  have h5: "codegen_fn (demo_conjunct\<lparr>codegen_fn := None\<rparr>) = None" by simp
  from h1 h2 h4 h5 r1 r2 r3 r4 r5 r6 r7 v show ?thesis by simp
qed

section \<open>Splicing the generated writer into the batch routine\<close>

lemma replace_site_other: "\<not> is_site_of name c \<Longrightarrow> replace_site f name c = c"
  by (cases c) simp_all

lemma replace_site_hit: "is_site_of name c \<Longrightarrow> c = CallNamed name \<and> replace_site f name c = CallFn f"
  by (cases c) simp_all

lemma filter_single_split:
  "length (filter P xs) = 1 \<Longrightarrow>
     \<exists>pre x post. xs = pre @ x # post \<and> P x \<and> (\<forall>y \<in> set pre. \<not> P y) \<and> (\<forall>y \<in> set post. \<not> P y)"
proof (induction xs)
  case Nil
  then show ?case by simp
next
  case (Cons a xs)
  show ?case
  proof (cases "P a")
    case True
    with Cons.prems have "filter P xs = []" by simp
    then have "\<forall>y \<in> set xs. \<not> P y" by (simp add: filter_empty_conv)
    with True show ?thesis by (intro exI [of _ "[]"] exI [of _ a] exI [of _ xs]) simp
  next
    case False
    with Cons.prems have "length (filter P xs) = 1" by simp
    from Cons.IH [OF this] obtain pre x post where
      "xs = pre @ x # post" "P x" "\<forall>y \<in> set pre. \<not> P y" "\<forall>y \<in> set post. \<not> P y" by blast
    with False show ?thesis
      by (intro exI [of _ "a # pre"] exI [of _ x] exI [of _ post]) simp
  qed
qed


text \<open>
  C9. Let \<^verbatim>\<open>WriteAlignedTuples\<close> be available. If it has exactly one call site of the
  function named \<^verbatim>\<open>WriteCompleteTuple\<close>, \<^verbatim>\<open>CodegenWriteAlignedTuples\<close> replaces that call
  site by a call of the generated writer, leaves every other call site as it is, and
  finalizes the result. If the number of such call sites is not one, it ends in the
  assertion that one call site should be replaced.
\<close>

theorem CodegenWriteAlignedTuples_one_call_site:
  assumes wt: "GetFunction codegen = Some write_tuples"
  shows "(if length (filter (is_site_of ''WriteCompleteTuple'') (call_sites write_tuples)) = 1
          then \<exists>pre post.
                 call_sites write_tuples = pre @ CallNamed ''WriteCompleteTuple'' # post
               \<and> (\<forall>c \<in> set (pre @ post). \<not> is_site_of ''WriteCompleteTuple'' c)
               \<and> CodegenWriteAlignedTuples node codegen (Some wfn)
                   = Inr (FinalizeFunction_ir codegen
                            (write_tuples\<lparr>call_sites := pre @ CallFn wfn # post\<rparr>))
          else CodegenWriteAlignedTuples node codegen (Some wfn)
                 = Inl (DCheckFailed ''One call site should be replaced.''))"
proof (cases "length (filter (is_site_of ''WriteCompleteTuple'') (call_sites write_tuples)) = 1")
  case True
  from filter_single_split [OF True] obtain pre x post where
    sp: "call_sites write_tuples = pre @ x # post" and x: "is_site_of ''WriteCompleteTuple'' x"
    and pre: "\<forall>y \<in> set pre. \<not> is_site_of ''WriteCompleteTuple'' y"
    and post: "\<forall>y \<in> set post. \<not> is_site_of ''WriteCompleteTuple'' y"
    by blast
  from x have xeq: "x = CallNamed ''WriteCompleteTuple''"
    and xr: "replace_site wfn ''WriteCompleteTuple'' x = CallFn wfn"
    using replace_site_hit by blast+
  have mp: "map (replace_site wfn ''WriteCompleteTuple'') pre = pre"
    using pre by (simp add: map_idI replace_site_other)
  have mq: "map (replace_site wfn ''WriteCompleteTuple'') post = post"
    using post by (simp add: map_idI replace_site_other)
  have run: "CodegenWriteAlignedTuples node codegen (Some wfn)
      = Inr (FinalizeFunction_ir codegen (write_tuples\<lparr>call_sites := pre @ CallFn wfn # post\<rparr>))"
    using True by (simp add: CodegenWriteAlignedTuples_def wt ReplaceCallSites_def sp xr mp mq)
  from True sp xeq pre post run show ?thesis by auto
next
  case False
  then show ?thesis
    by (simp add: CodegenWriteAlignedTuples_def wt ReplaceCallSites_def)
qed

theorem CodegenWriteAlignedTuples_one_call_site_witness:
  "GetFunction demo_codegen = Some demo_write_tuples
   \<and> length (filter (is_site_of ''WriteCompleteTuple'') (call_sites demo_write_tuples)) = 1
   \<and> CodegenWriteAlignedTuples demo_node demo_codegen (Some demo_fn)
       = Inr (Some \<lparr>call_sites = [CallFn demo_fn, CallNamed ''ReportTupleParseError'']\<rparr>)
   \<and> GetFunction (demo_codegen\<lparr>GetFunction := Some \<lparr>call_sites = []\<rparr>\<rparr>) = Some \<lparr>call_sites = []\<rparr>
   \<and> CodegenWriteAlignedTuples demo_node (demo_codegen\<lparr>GetFunction := Some \<lparr>call_sites = []\<rparr>\<rparr>)
         (Some demo_fn)
       = Inl (DCheckFailed ''One call site should be replaced.'')"
proof -
  have h1: "GetFunction demo_codegen = Some demo_write_tuples"
    by (simp add: demo_codegen_def)
  have one: "length (filter (is_site_of ''WriteCompleteTuple'') (call_sites demo_write_tuples)) = 1"
    by (simp add: demo_write_tuples_def)
  from CodegenWriteAlignedTuples_one_call_site [OF h1, of demo_node demo_fn] one
  obtain pre post where
    sp: "call_sites demo_write_tuples = pre @ CallNamed ''WriteCompleteTuple'' # post" and
    no: "\<forall>c \<in> set (pre @ post). \<not> is_site_of ''WriteCompleteTuple'' c" and
    run: "CodegenWriteAlignedTuples demo_node demo_codegen (Some demo_fn)
            = Inr (FinalizeFunction_ir demo_codegen
                     (demo_write_tuples\<lparr>call_sites := pre @ CallFn demo_fn # post\<rparr>))"
    by auto
  have "pre = []"
  proof (cases pre)
    case Nil
    then show ?thesis .
  next
    case (Cons a as)
    with sp have "a = CallNamed ''WriteCompleteTuple''" by (simp add: demo_write_tuples_def)
    with no Cons show ?thesis by simp
  qed
  with sp have "post = [CallNamed ''ReportTupleParseError'']"
    by (simp add: demo_write_tuples_def)
  with run \<open>pre = []\<close> have r1: "CodegenWriteAlignedTuples demo_node demo_codegen (Some demo_fn)
       = Inr (Some \<lparr>call_sites = [CallFn demo_fn, CallNamed ''ReportTupleParseError'']\<rparr>)"
    by (simp add: FinalizeFunction_ir_def demo_codegen_def demo_write_tuples_def)
  have h2: "GetFunction (demo_codegen\<lparr>GetFunction := Some \<lparr>call_sites = []\<rparr>\<rparr>) = Some \<lparr>call_sites = []\<rparr>"
    by simp
  from CodegenWriteAlignedTuples_one_call_site [OF h2, of demo_node demo_fn]
  have r2: "CodegenWriteAlignedTuples demo_node (demo_codegen\<lparr>GetFunction := Some \<lparr>call_sites = []\<rparr>\<rparr>)
         (Some demo_fn)
       = Inl (DCheckFailed ''One call site should be replaced.'')"
    by simp
  from h1 one r1 h2 r2 show ?thesis by blast
qed


section \<open>The parse status\<close>

lemma report_fold_parse_status:
  "\<not> ok (parse_status s) \<Longrightarrow>
     parse_status (snd (fold (report_slot_step flds) xs (errors, s))) = parse_status s"
proof (induction xs arbitrary: errors s)
  case Nil
  then show ?case by simp
next
  case (Cons x xs)
  obtain errors1 s1 where st: "report_slot_step flds x (errors, s) = (errors1, s1)"
    by (cases "report_slot_step flds x (errors, s)")
  have ps: "parse_status s1 = parse_status s"
    using st Cons.prems
    by (auto simp add: report_slot_step_def ReportColumnParseError_fields split: if_splits)
  with Cons.prems have "\<not> ok (parse_status s1)" by simp
  from Cons.IH [OF this] st ps show ?case by simp
qed

lemma ReportTupleParseError_returns_ok:
  "ReportTupleParseError log_row flds errors row_idx s = Inr (r, errors', s')
     \<Longrightarrow> r = ok (parse_status s')"
  by (auto simp add: ReportTupleParseError_def Let_def split: prod.splits sum.splits if_splits)

lemma ReportTupleParseError_parse_status:
  assumes "ReportTupleParseError log_row flds errors row_idx s = Inr (r, errors', s')"
  shows "parse_status s' =
     parse_status (snd (fold (report_slot_step flds)
        [0..<length (materialized_slots (scan_node s))] (errors, s)))"
  using assms
  by (auto simp add: ReportTupleParseError_def Let_def split: prod.splits sum.splits if_splits)

lemma scanner_after_parse_status:
  assumes "\<not> ok (parse_status s)" and "scanner_after opn s = Inr s'"
  shows "parse_status s' = parse_status s"
proof (cases opn)
  case (OpPrepare ctx)
  with assms show ?thesis by (auto simp add: Prepare_def StartNewRowBatch_def)
next
  case OpClose
  with assms show ?thesis by (auto simp add: Close_def)
next
  case (OpInitializeWriteTuplesFn c)
  with assms show ?thesis
    by (auto simp add: InitializeWriteTuplesFn_def IncNumScannersCodegenDisabled_def
        IncNumScannersCodegenEnabled_def Let_def split: option.splits if_splits)
next
  case OpStartNewRowBatch
  with assms show ?thesis by (auto simp add: StartNewRowBatch_def)
next
  case OpGetMemory
  with assms show ?thesis by (auto split: sum.splits)
next
  case (OpCommitRows n)
  with assms show ?thesis
    by (auto simp add: CommitRows_def Let_def StartNewRowBatch_def AddMaterializedRowBatch_def
        AttachCompletedResources_def split: option.splits if_splits sum.splits)
next
  case OpAddFinalRowBatch
  with assms show ?thesis
    by (auto simp add: AddFinalRowBatch_def AddMaterializedRowBatch_def
        AttachCompletedResources_def split: option.splits)
next
  case (OpWriteEmptyTuplesBatch b n)
  with assms show ?thesis by (auto split: sum.splits)
next
  case (OpWriteEmptyTuplesContext row_mem row n)
  with assms show ?thesis by (auto split: sum.splits)
next
  case (OpWriteCompleteTuple flds tmpl m)
  with assms show ?thesis by (auto split: sum.splits)
next
  case (OpReportTupleParseError log_row flds errors row_idx)
  with assms obtain r errors' where
    run: "ReportTupleParseError log_row flds errors row_idx s = Inr (r, errors', s')"
    by (auto split: sum.splits)
  from ReportTupleParseError_parse_status [OF run] report_fold_parse_status [OF assms(1)]
  show ?thesis by simp
next
  case (OpLogRowParseError row_idx)
  with assms show ?thesis by (auto split: sum.splits)
next
  case (OpReportColumnParseError desc data l)
  with assms show ?thesis by (auto simp add: ReportColumnParseError_fields)
qed

lemma scanner_after_all_parse_status:
  "\<not> ok (parse_status s) \<Longrightarrow> scanner_after_all ops s = Inr s' \<Longrightarrow> parse_status s' = parse_status s"
proof (induction ops arbitrary: s)
  case Nil
  then show ?case by simp
next
  case (Cons opn ops)
  from Cons.prems obtain s1 where
    one: "scanner_after opn s = Inr s1" and rest: "scanner_after_all ops s1 = Inr s'"
    by (auto split: sum.splits)
  from scanner_after_parse_status [OF Cons.prems(1) one] have ps: "parse_status s1 = parse_status s" .
  with Cons.prems have "\<not> ok (parse_status s1)" by simp
  from Cons.IH [OF this rest] ps show ?case by simp
qed


text \<open>
  C7. Once the parse status is not ok, every sequence of operations of this file that
  runs to its end leaves the parse status as it was, so none resets it to ok.
  \<^verbatim>\<open>ReportColumnParseError\<close> changes the parse status only when it is ok and the scanner
  aborts on errors, and then to a status that is not ok. The value that
  \<^verbatim>\<open>ReportTupleParseError\<close> returns is whether the parse status is ok when it returns.
\<close>

theorem parse_status_is_sticky:
  "(\<not> ok (parse_status s) \<and> scanner_after_all ops s = Inr s'
      \<longrightarrow> parse_status s' = parse_status s \<and> \<not> ok (parse_status s'))
   \<and> (parse_status (ReportColumnParseError desc data l s) \<noteq> parse_status s
      \<longrightarrow> ok (parse_status s) \<and> abort_on_error (state s)
          \<and> \<not> ok (parse_status (ReportColumnParseError desc data l s)))
   \<and> (ReportTupleParseError log_row flds errors row_idx s = Inr (r, errors', s1)
      \<longrightarrow> r = ok (parse_status s1))"
proof -
  have a: "\<not> ok (parse_status s) \<and> scanner_after_all ops s = Inr s'
      \<longrightarrow> parse_status s' = parse_status s \<and> \<not> ok (parse_status s')"
    using scanner_after_all_parse_status [of s ops s'] by auto
  have b: "parse_status (ReportColumnParseError desc data l s) \<noteq> parse_status s
      \<longrightarrow> ok (parse_status s) \<and> abort_on_error (state s)
          \<and> \<not> ok (parse_status (ReportColumnParseError desc data l s))"
    by (auto simp add: ReportColumnParseError_fields ok_def)
  have c: "ReportTupleParseError log_row flds errors row_idx s = Inr (r, errors', s1)
      \<longrightarrow> r = ok (parse_status s1)"
    using ReportTupleParseError_returns_ok by blast
  from a b c show ?thesis by blast
qed

theorem parse_status_is_sticky_witness:
  "\<not> ok (parse_status demo_failed_scanner)
   \<and> (\<exists>s'. scanner_after_all
              [OpReportColumnParseError (demo_slots ! 1) ''abcd'' (- 3), OpCommitRows 1, OpClose,
               OpPrepare demo_context]
              demo_failed_scanner = Inr s'
          \<and> parse_status s' = Error ''bad column'')
   \<and> parse_status (ReportColumnParseError (demo_slots ! 1) ''abcd'' (- 3) demo_abort_scanner)
       \<noteq> parse_status demo_abort_scanner
   \<and> ok (parse_status demo_abort_scanner) \<and> abort_on_error (state demo_abort_scanner)
   \<and> \<not> ok (parse_status (ReportColumnParseError (demo_slots ! 1) ''abcd'' (- 3) demo_abort_scanner))
   \<and> (\<exists>errors' s1.
         ReportTupleParseError demo_log_row demo_escaped_fields [0, 1] 4 demo_abort_scanner
           = Inr (False, errors', s1)
         \<and> \<not> ok (parse_status s1))"
proof -
  let ?ops = "[OpReportColumnParseError (demo_slots ! 1) ''abcd'' (- 3), OpCommitRows 1, OpClose,
               OpPrepare demo_context]"
  have h1: "\<not> ok (parse_status demo_failed_scanner)"
    by (simp add: demo_defs ok_def)
  have "\<exists>s'. scanner_after_all ?ops demo_failed_scanner = Inr s'"
    by (simp add: demo_defs ReportColumnParseError_def CommitRows_def Let_def LogHasSpace_def
        LogError_def ok_def RowBatch_CommitRows_def IsFull_def AtResourceLimit_def
        CheckQueryState_def)
  then obtain s' where run: "scanner_after_all ?ops demo_failed_scanner = Inr s'" by blast
  from parse_status_is_sticky [of demo_failed_scanner ?ops s'] h1 run
  have "parse_status s' = parse_status demo_failed_scanner" by blast
  then have kept: "parse_status s' = Error ''bad column''" by (simp add: demo_defs)
  have h2: "parse_status (ReportColumnParseError (demo_slots ! 1) ''abcd'' (- 3) demo_abort_scanner)
       \<noteq> parse_status demo_abort_scanner"
    by (simp add: demo_defs ReportColumnParseError_def Let_def LogHasSpace_def LogError_def ok_def)
  from parse_status_is_sticky
    [of demo_abort_scanner "[]" demo_abort_scanner "demo_slots ! 1" "''abcd''" "- 3"] h2
  have set: "ok (parse_status demo_abort_scanner) \<and> abort_on_error (state demo_abort_scanner)
   \<and> \<not> ok (parse_status (ReportColumnParseError (demo_slots ! 1) ''abcd'' (- 3) demo_abort_scanner))"
    by blast
  have "\<exists>r errors' s1.
         ReportTupleParseError demo_log_row demo_escaped_fields [0, 1] 4 demo_abort_scanner
           = Inr (r, errors', s1)"
    by (auto simp add: ReportTupleParseError_def report_slot_step_def ReportColumnParseError_def
        LogHasSpace_def LogError_def ReportFileErrors_def demo_defs upt_2 ok_def Let_def)
  then obtain r errors' s1 where
    rep: "ReportTupleParseError demo_log_row demo_escaped_fields [0, 1] 4 demo_abort_scanner
           = Inr (r, errors', s1)"
    by blast
  from parse_status_is_sticky
    [of demo_abort_scanner "[]" demo_abort_scanner "demo_slots ! 1" "''abcd''" "- 3"
        demo_log_row demo_escaped_fields "[0, 1]" 4 r errors' s1] rep
  have ret: "r = ok (parse_status s1)" by blast
  have "\<not> r"
    using rep
    by (simp add: ReportTupleParseError_def report_slot_step_def ReportColumnParseError_def
        LogHasSpace_def LogError_def ReportFileErrors_def demo_defs upt_2 ok_def Let_def
        split: if_splits)
  with ret rep have last: "\<exists>errors' s1.
         ReportTupleParseError demo_log_row demo_escaped_fields [0, 1] 4 demo_abort_scanner
           = Inr (False, errors', s1)
         \<and> \<not> ok (parse_status s1)"
    by auto
  from h1 run kept h2 set last show ?thesis by blast
qed


section \<open>The generated tuple writer against the interpreted one\<close>

lemma conjunct_fns_Some:
  "conjunct_fns cs = Inr (Some cfns) \<Longrightarrow>
     length cfns = length cs \<and> (\<forall>k < length cs. codegen_fn (cs ! k) = Some (cfns ! k))"
proof (induction cs arbitrary: cfns)
  case Nil
  then show ?case by simp
next
  case (Cons c cs)
  from Cons.prems obtain f fs where
    c: "codegen_fn c = Some f" and rest: "conjunct_fns cs = Inr (Some fs)" and eq: "cfns = f # fs"
    by (auto split: option.splits if_splits sum.splits)
  from Cons.IH [OF rest] c eq show ?case
    by (auto simp add: nth_Cons split: nat.splits)
qed

lemma slot_fns_Some:
  "slot_fns codegen ds = Some sfns \<Longrightarrow>
     length sfns = length ds \<and> (\<forall>i < length ds. CodegenWriteSlot codegen (ds ! i) = Some (sfns ! i))"
proof (induction ds arbitrary: sfns)
  case Nil
  then show ?case by simp
next
  case (Cons d ds)
  from Cons.prems obtain f fs where
    d: "CodegenWriteSlot codegen d = Some f" and rest: "slot_fns codegen ds = Some fs"
    and eq: "sfns = f # fs"
    by (auto split: option.splits)
  from Cons.IH [OF rest] d eq show ?case
    by (auto simp add: nth_Cons split: nat.splits)
qed

lemma CodegenWriteCompleteTuple_Some:
  assumes "CodegenWriteCompleteTuple node codegen cs = Inr (Some f)"
  shows "\<exists>cfns sfns. conjunct_fns cs = Inr (Some cfns)
     \<and> slot_fns codegen (materialized_slots node) = Some sfns
     \<and> fn_init f = (if num_materialized_partition_keys node = 0
                     then ZeroNullBytes (num_null_bytes node) else MemcpyTemplate (byte_size node))
     \<and> fn_tuple_idx f = tuple_idx node
     \<and> fn_slot_fns f = sfns
     \<and> fn_conjunct_fns f = cfns
     \<and> fn_body f = parse_blocks (materialize_order node) (length cs) 0"
  using assms
  by (auto simp add: CodegenWriteCompleteTuple_def FinalizeFunction_def
      split: if_splits sum.splits option.splits)


lemma write_slot_step_fields:
  "tuple (write_slot_step s flds i m) =
     snd (WriteSlot (text_converter s) (materialized_slots (scan_node s) ! i) (tuple m)
            (start (flds ! i)) (if sint (len (flds ! i)) < 0 then - len (flds ! i) else len (flds ! i))
            (stream_compact_data (scanner_context s)) (sint (len (flds ! i)) < 0))"
  "error_fields (write_slot_step s flds i m) =
     (error_fields m)[i := of_bool (\<not> fst (WriteSlot (text_converter s)
            (materialized_slots (scan_node s) ! i) (tuple m)
            (start (flds ! i)) (if sint (len (flds ! i)) < 0 then - len (flds ! i) else len (flds ! i))
            (stream_compact_data (scanner_context s)) (sint (len (flds ! i)) < 0)))]"
  "error_in_row (write_slot_step s flds i m) =
     error_in_row m OR of_bool (\<not> fst (WriteSlot (text_converter s)
            (materialized_slots (scan_node s) ! i) (tuple m)
            (start (flds ! i)) (if sint (len (flds ! i)) < 0 then - len (flds ! i) else len (flds ! i))
            (stream_compact_data (scanner_context s)) (sint (len (flds ! i)) < 0)))"
  by (simp_all add: write_slot_step_def Let_def split: prod.splits)

lemma write_slot_step_commute:
  assumes ind: "slot_writes_independent s"
    and i: "i < length (materialized_slots (scan_node s))"
    and j: "j < length (materialized_slots (scan_node s))"
  shows "write_slot_step s flds i (write_slot_step s flds j m)
       = write_slot_step s flds j (write_slot_step s flds i m)"
proof (cases "i = j")
  case True
  then show ?thesis by simp
next
  case False
  define Wi where "Wi = (\<lambda>t. WriteSlot (text_converter s) (materialized_slots (scan_node s) ! i) t
            (start (flds ! i)) (if sint (len (flds ! i)) < 0 then - len (flds ! i) else len (flds ! i))
            (stream_compact_data (scanner_context s)) (sint (len (flds ! i)) < 0))"
  define Wj where "Wj = (\<lambda>t. WriteSlot (text_converter s) (materialized_slots (scan_node s) ! j) t
            (start (flds ! j)) (if sint (len (flds ! j)) < 0 then - len (flds ! j) else len (flds ! j))
            (stream_compact_data (scanner_context s)) (sint (len (flds ! j)) < 0))"
  define bi :: byte where "bi = of_bool (\<not> fst (Wi (tuple m)))"
  define bj :: byte where "bj = of_bool (\<not> fst (Wj (tuple m)))"
  have fi: "\<And>t. fst (Wi t) = fst (Wi (tuple m))"
    using ind i unfolding slot_writes_independent_def Wi_def by blast
  have fj: "\<And>t. fst (Wj t) = fst (Wj (tuple m))"
    using ind j unfolding slot_writes_independent_def Wj_def by blast
  have sw: "\<And>t. snd (Wi (snd (Wj t))) = snd (Wj (snd (Wi t)))"
    using ind i j False unfolding slot_writes_independent_def Wi_def Wj_def by blast
  have ti: "\<And>m'. tuple (write_slot_step s flds i m') = snd (Wi (tuple m'))"
    by (simp add: write_slot_step_fields(1) Wi_def)
  have tj: "\<And>m'. tuple (write_slot_step s flds j m') = snd (Wj (tuple m'))"
    by (simp add: write_slot_step_fields(1) Wj_def)
  have ei: "error_fields (write_slot_step s flds i m') = (error_fields m')[i := bi]" for m'
  proof -
    have "error_fields (write_slot_step s flds i m')
        = (error_fields m')[i := of_bool (\<not> fst (Wi (tuple m')))]"
      by (simp add: write_slot_step_fields(2) Wi_def)
    with fi [of "tuple m'"] show ?thesis by (simp only: bi_def)
  qed
  have ej: "error_fields (write_slot_step s flds j m') = (error_fields m')[j := bj]" for m'
  proof -
    have "error_fields (write_slot_step s flds j m')
        = (error_fields m')[j := of_bool (\<not> fst (Wj (tuple m')))]"
      by (simp add: write_slot_step_fields(2) Wj_def)
    with fj [of "tuple m'"] show ?thesis by (simp only: bj_def)
  qed
  have ri: "error_in_row (write_slot_step s flds i m') = error_in_row m' OR bi" for m'
  proof -
    have "error_in_row (write_slot_step s flds i m')
        = error_in_row m' OR of_bool (\<not> fst (Wi (tuple m')))"
      by (simp add: write_slot_step_fields(3) Wi_def)
    with fi [of "tuple m'"] show ?thesis by (simp only: bi_def)
  qed
  have rj: "error_in_row (write_slot_step s flds j m') = error_in_row m' OR bj" for m'
  proof -
    have "error_in_row (write_slot_step s flds j m')
        = error_in_row m' OR of_bool (\<not> fst (Wj (tuple m')))"
      by (simp add: write_slot_step_fields(3) Wj_def)
    with fj [of "tuple m'"] show ?thesis by (simp only: bj_def)
  qed
  let ?a = "write_slot_step s flds i (write_slot_step s flds j m)"
  let ?b = "write_slot_step s flds j (write_slot_step s flds i m)"
  have t: "tuple ?a = tuple ?b"
    by (simp only: ti tj sw)
  have e: "error_fields ?a = error_fields ?b"
    unfolding ei ej by (rule list_update_swap [OF False [symmetric]])
  have r: "error_in_row ?a = error_in_row ?b"
    unfolding ri rj by (simp add: ac_simps)
  have w: "tuple_row ?a = tuple_row ?b"
    by (simp only: write_slot_step_tuple_row)
  show ?thesis by (rule wct_mem.equality) (simp_all add: t e r w)
qed

lemma groups_mset:
  "mset (concat (map (\<lambda>k. filter (\<lambda>i. f i = k) xs) [0..<K])) = mset (filter (\<lambda>i. f i < K) xs)"
proof (induction K)
  case 0
  then show ?case by simp
next
  case (Suc K)
  have "mset (filter (\<lambda>i. f i < K) xs) + mset (filter (\<lambda>i. f i = K) xs)
      = mset (filter (\<lambda>i. f i < Suc K) xs)"
    by (induction xs) (auto simp add: less_Suc_eq)
  with Suc show ?case by simp
qed

lemma slots_for_concat_mset:
  assumes "\<forall>i < length order. order ! i \<le> nc"
  shows "mset (concat (map (slots_for order) [0..<Suc nc])) = mset [0..<length order]"
proof -
  have "filter (\<lambda>i. order ! i < Suc nc) [0..<length order] = [0..<length order]"
    using assms by (intro filter_True) (simp add: less_Suc_eq_le)
  with groups_mset [of "\<lambda>i. order ! i" "[0..<length order]" "Suc nc"]
  show ?thesis by (simp add: slots_for_def [abs_def])
qed

lemma interpreted_in_generated_order:
  assumes ind: "slot_writes_independent s"
    and len: "length (materialize_order (scan_node s)) = length (materialized_slots (scan_node s))"
    and le: "\<forall>i < length (materialized_slots (scan_node s)). materialize_order (scan_node s) ! i \<le> nc"
  shows "fold (write_slot_step s flds) [0..<length (materialized_slots (scan_node s))] m
       = fold (write_slot_step s flds) (concat (map (slots_for (materialize_order (scan_node s))) [0..<Suc nc])) m"
proof -
  let ?n = "length (materialized_slots (scan_node s))"
  have ms: "mset [0..<?n] = mset (concat (map (slots_for (materialize_order (scan_node s))) [0..<Suc nc]))"
    using slots_for_concat_mset [of "materialize_order (scan_node s)" nc] len le by simp
  have comm: "\<And>x y. x \<in> set [0..<?n] \<Longrightarrow> y \<in> set [0..<?n] \<Longrightarrow>
      write_slot_step s flds x \<circ> write_slot_step s flds y
        = write_slot_step s flds y \<circ> write_slot_step s flds x"
    using write_slot_step_commute [OF ind] by (auto simp add: fun_eq_iff)
  from fold_multiset_equiv [OF comm ms] show ?thesis by simp
qed


lemma slots_for_bound: "i \<in> set (slots_for order k) \<Longrightarrow> i < length order \<and> order ! i = k"
  by (simp add: slots_for_def)

lemma fused_step_related:
  assumes rel: "writers_related (tuple_idx (scan_node s)) row0 st mi"
    and idx: "fn_tuple_idx f = tuple_idx (scan_node s)"
    and agree: "\<And>t data l. (fn_slot_fns f ! i) t data l =
            WriteSlot (text_converter s) (materialized_slots (scan_node s) ! i) t data
              (if sint l < 0 then - l else l)
              (stream_compact_data (scanner_context s)) (sint l < 0)"
  shows "writers_related (tuple_idx (scan_node s)) row0
           (fused_slot_step f flds i st) (write_slot_step s flds i mi)"
proof -
  obtain m acc where st: "st = (m, acc)" by (cases st)
  define W where "W = WriteSlot (text_converter s) (materialized_slots (scan_node s) ! i) (tuple mi)
            (start (flds ! i)) (if sint (len (flds ! i)) < 0 then - len (flds ! i) else len (flds ! i))
            (stream_compact_data (scanner_context s)) (sint (len (flds ! i)) < 0)"
  from rel st have r: "tuple m = tuple mi" "error_fields m = error_fields mi"
    "error_in_row mi = of_bool acc" "tuple_row m = SetTuple (tuple_idx (scan_node s)) (tuple mi) row0"
    "tuple_row mi = row0"
    by (simp_all add: writers_related_def)
  have call: "(fn_slot_fns f ! i) (tuple m) (start (flds ! i)) (len (flds ! i)) = W"
    unfolding W_def agree r(1) by (rule refl)
  have fs: "fused_slot_step f flds i st =
      (m\<lparr>tuple := snd W,
         tuple_row := SetTuple (tuple_idx (scan_node s)) (snd W) (tuple_row m),
         error_fields := (error_fields m)[i := of_bool (\<not> fst W)]\<rparr>, acc \<or> \<not> fst W)"
    unfolding fused_slot_step_def st by (simp add: call idx split: prod.splits)
  have is1: "tuple (write_slot_step s flds i mi) = snd W"
    and is2: "error_fields (write_slot_step s flds i mi) = (error_fields mi)[i := of_bool (\<not> fst W)]"
    and is3: "error_in_row (write_slot_step s flds i mi) = error_in_row mi OR of_bool (\<not> fst W)"
    unfolding W_def by (rule write_slot_step_fields)+
  have row: "SetTuple (tuple_idx (scan_node s)) (snd W)
               (SetTuple (tuple_idx (scan_node s)) (tuple mi) row0)
           = SetTuple (tuple_idx (scan_node s)) (snd W) row0"
    by (simp add: SetTuple_def)
  show ?thesis
    unfolding writers_related_def fs
    by (simp add: is1 is2 is3 r row write_slot_step_tuple_row of_bool_OR_byte)
qed

lemma fused_fold_related:
  assumes idx: "fn_tuple_idx f = tuple_idx (scan_node s)"
    and agree: "\<And>i t data l. i < n \<Longrightarrow> (fn_slot_fns f ! i) t data l =
            WriteSlot (text_converter s) (materialized_slots (scan_node s) ! i) t data
              (if sint l < 0 then - l else l)
              (stream_compact_data (scanner_context s)) (sint l < 0)"
  shows "writers_related (tuple_idx (scan_node s)) row0 st mi \<Longrightarrow> \<forall>i \<in> set xs. i < n \<Longrightarrow>
     writers_related (tuple_idx (scan_node s)) row0
       (fold (fused_slot_step f flds) xs st) (fold (write_slot_step s flds) xs mi)"
proof (induction xs arbitrary: st mi)
  case Nil
  then show ?case by simp
next
  case (Cons x xs)
  from Cons.prems have x: "x < n" and rest: "\<forall>i \<in> set xs. i < n" by simp_all
  have "writers_related (tuple_idx (scan_node s)) row0
           (fused_slot_step f flds x st) (write_slot_step s flds x mi)"
    by (rule fused_step_related [OF Cons.prems(1) idx agree [OF x]])
  from Cons.IH [OF this rest] show ?case by simp
qed

lemma later_slots_unread:
  assumes ord: "materialize_order_ok s cs" and k: "k < length cs"
  shows "\<forall>i \<in> set xs. i < length (materialized_slots (scan_node s))
            \<and> k < materialize_order (scan_node s) ! i \<Longrightarrow>
     eval (cs ! k) (SetTuple (tuple_idx (scan_node s)) (tuple (fold (write_slot_step s flds) xs mi)) row)
       = eval (cs ! k) (SetTuple (tuple_idx (scan_node s)) (tuple mi) row)"
proof (induction xs arbitrary: mi)
  case Nil
  then show ?case by simp
next
  case (Cons x xs)
  from Cons.prems have x: "x < length (materialized_slots (scan_node s))"
    "k < materialize_order (scan_node s) ! x"
    and rest: "\<forall>i \<in> set xs. i < length (materialized_slots (scan_node s))
            \<and> k < materialize_order (scan_node s) ! i"
    by simp_all
  from ord k x have one: "\<And>row t data l esc.
             eval (cs ! k)
               (SetTuple (tuple_idx (scan_node s))
                  (snd (WriteSlot (text_converter s) (materialized_slots (scan_node s) ! x) t
                          data l (stream_compact_data (scanner_context s)) esc)) row)
             = eval (cs ! k) (SetTuple (tuple_idx (scan_node s)) t row)"
    unfolding materialize_order_ok_def by blast
  have "eval (cs ! k) (SetTuple (tuple_idx (scan_node s))
            (tuple (fold (write_slot_step s flds) xs (write_slot_step s flds x mi))) row)
      = eval (cs ! k) (SetTuple (tuple_idx (scan_node s)) (tuple (write_slot_step s flds x mi)) row)"
    by (rule Cons.IH [OF rest])
  also have "\<dots> = eval (cs ! k) (SetTuple (tuple_idx (scan_node s)) (tuple mi) row)"
    unfolding write_slot_step_fields(1) by (rule one)
  finally show ?case by simp
qed


lemma all_from_Suc:
  "P k \<Longrightarrow> (\<forall>j. k \<le> j \<and> j < n \<longrightarrow> P j) = (\<forall>j. Suc k \<le> j \<and> j < n \<longrightarrow> P j)"
proof
  assume a: "P k" "\<forall>j. k \<le> j \<and> j < n \<longrightarrow> P j"
  show "\<forall>j. Suc k \<le> j \<and> j < n \<longrightarrow> P j"
    using a(2) by auto
next
  assume a: "P k" "\<forall>j. Suc k \<le> j \<and> j < n \<longrightarrow> P j"
  show "\<forall>j. k \<le> j \<and> j < n \<longrightarrow> P j"
  proof (intro allI impI)
    fix j assume j: "k \<le> j \<and> j < n"
    show "P j"
    proof (cases "j = k")
      case True
      with a(1) show ?thesis by simp
    next
      case False
      with j have "Suc k \<le> j \<and> j < n" by simp
      with a(2) show ?thesis by blast
    qed
  qed
qed

lemma run_blocks_related:
  assumes idx: "fn_tuple_idx f = tuple_idx (scan_node s)"
    and agree: "\<And>i t data l. i < length (materialized_slots (scan_node s)) \<Longrightarrow>
            (fn_slot_fns f ! i) t data l =
            WriteSlot (text_converter s) (materialized_slots (scan_node s) ! i) t data
              (if sint l < 0 then - l else l)
              (stream_compact_data (scanner_context s)) (sint l < 0)"
    and cfn: "\<And>j. j < length cs \<Longrightarrow> fn_conjunct_fns f ! j = eval (cs ! j)"
    and ord: "materialize_order_ok s cs"
  shows "writers_related (tuple_idx (scan_node s)) row0 st mi \<Longrightarrow> k + r = length cs \<Longrightarrow>
     fst (run_blocks f flds (parse_blocks (materialize_order (scan_node s)) r k) st)
       = (\<forall>j. k \<le> j \<and> j < length cs \<longrightarrow>
            eval (cs ! j) (SetTuple (tuple_idx (scan_node s))
              (tuple (fold (write_slot_step s flds)
                 (concat (map (slots_for (materialize_order (scan_node s))) [k..<Suc (length cs)])) mi))
              row0))
     \<and> (fst (run_blocks f flds (parse_blocks (materialize_order (scan_node s)) r k) st) \<longrightarrow>
          snd (run_blocks f flds (parse_blocks (materialize_order (scan_node s)) r k) st)
          = (fold (write_slot_step s flds)
                 (concat (map (slots_for (materialize_order (scan_node s))) [k..<Suc (length cs)])) mi)
            \<lparr>tuple_row := SetTuple (tuple_idx (scan_node s))
              (tuple (fold (write_slot_step s flds)
                 (concat (map (slots_for (materialize_order (scan_node s))) [k..<Suc (length cs)])) mi))
              row0\<rparr>)"
proof (induction r arbitrary: k st mi)
  case 0
  let ?order = "materialize_order (scan_node s)"
  let ?tidx = "tuple_idx (scan_node s)"
  let ?n = "length (materialized_slots (scan_node s))"
  from 0 have k: "k = length cs" by simp
  from ord have len: "length ?order = ?n" by (simp add: materialize_order_ok_def)
  have bound: "\<forall>i \<in> set (slots_for ?order k). i < ?n"
    using slots_for_bound [of _ ?order k] len by auto
  let ?full = "fold (write_slot_step s flds) (slots_for ?order k) mi"
  have rel: "writers_related ?tidx row0 (fold (fused_slot_step f flds) (slots_for ?order k) st) ?full"
    by (rule fused_fold_related [OF idx agree "0.prems"(1) bound])
  obtain m acc where fm: "fold (fused_slot_step f flds) (slots_for ?order k) st = (m, acc)"
    by (cases "fold (fused_slot_step f flds) (slots_for ?order k) st")
  from rel fm have r: "tuple m = tuple ?full" "error_fields m = error_fields ?full"
    "error_in_row ?full = of_bool acc" "tuple_row m = SetTuple ?tidx (tuple ?full) row0"
    by (simp_all add: writers_related_def)
  have res: "run_blocks f flds (parse_blocks ?order 0 k) st = (True, m\<lparr>error_in_row := of_bool acc\<rparr>)"
    by (simp add: fm)
  have eq: "m\<lparr>error_in_row := of_bool acc\<rparr> = ?full\<lparr>tuple_row := SetTuple ?tidx (tuple ?full) row0\<rparr>"
    by (rule wct_mem.equality) (simp_all add: r)
  have cc: "concat (map (slots_for ?order) [k..<Suc (length cs)]) = slots_for ?order k"
    using k by simp
  show ?case unfolding cc res using k eq by auto
next
  case (Suc r)
  let ?order = "materialize_order (scan_node s)"
  let ?tidx = "tuple_idx (scan_node s)"
  let ?n = "length (materialized_slots (scan_node s))"
  from Suc.prems have k: "k < length cs" and k': "Suc k + r = length cs" by simp_all
  from ord have len: "length ?order = ?n" by (simp add: materialize_order_ok_def)
  have bound: "\<forall>i \<in> set (slots_for ?order k). i < ?n"
    using slots_for_bound [of _ ?order k] len by auto
  let ?mi' = "fold (write_slot_step s flds) (slots_for ?order k) mi"
  let ?st' = "fold (fused_slot_step f flds) (slots_for ?order k) st"
  let ?rest = "concat (map (slots_for ?order) [Suc k..<Suc (length cs)])"
  let ?full = "fold (write_slot_step s flds) ?rest ?mi'"
  have rel: "writers_related ?tidx row0 ?st' ?mi'"
    by (rule fused_fold_related [OF idx agree Suc.prems(1) bound])
  obtain m acc where fm: "?st' = (m, acc)" by (cases ?st')
  from rel fm have row: "tuple_row m = SetTuple ?tidx (tuple ?mi') row0"
    by (simp add: writers_related_def)
  have cc: "concat (map (slots_for ?order) [k..<Suc (length cs)]) = slots_for ?order k @ ?rest"
    using k by (simp add: upt_conv_Cons)
  have full: "fold (write_slot_step s flds) (concat (map (slots_for ?order) [k..<Suc (length cs)])) mi
      = ?full"
    unfolding cc by simp
  have later: "\<forall>i \<in> set ?rest. i < ?n \<and> k < ?order ! i"
    using len by (auto dest!: slots_for_bound)
  have unread: "eval (cs ! k) (SetTuple ?tidx (tuple ?full) row0)
      = eval (cs ! k) (SetTuple ?tidx (tuple ?mi') row0)"
    by (rule later_slots_unread [OF ord k later])
  have cond: "(fn_conjunct_fns f ! k) (tuple_row m) = eval (cs ! k) (SetTuple ?tidx (tuple ?full) row0)"
    unfolding cfn [OF k] row unread by (rule refl)
  have blocks: "parse_blocks ?order (Suc r) k
      = CondBr (slots_for ?order k) k (parse_blocks ?order r (Suc k))"
    by simp
  show ?case
  proof (cases "eval (cs ! k) (SetTuple ?tidx (tuple ?full) row0)")
    case False
    with cond have res: "run_blocks f flds (parse_blocks ?order (Suc r) k) st = (False, m)"
      unfolding blocks by (simp add: fm)
    from False k show ?thesis unfolding res full by auto
  next
    case True
    with cond have res: "run_blocks f flds (parse_blocks ?order (Suc r) k) st
        = run_blocks f flds (parse_blocks ?order r (Suc k)) ?st'"
      unfolding blocks by (simp add: fm)
    note IH = Suc.IH [OF rel k']
    have split: "(\<forall>j. k \<le> j \<and> j < length cs \<longrightarrow> eval (cs ! j) (SetTuple ?tidx (tuple ?full) row0))
        = (\<forall>j. Suc k \<le> j \<and> j < length cs \<longrightarrow> eval (cs ! j) (SetTuple ?tidx (tuple ?full) row0))"
      by (rule all_from_Suc
          [where P = "\<lambda>j. eval (cs ! j) (SetTuple ?tidx (tuple ?full) row0)", OF True])
    show ?thesis unfolding res full split using IH by blast
  qed
qed



text \<open>
  C1, as the code has it. Let \<^verbatim>\<open>CodegenWriteCompleteTuple\<close> build a function for the
  scanner's node and conjuncts, let the compiled slot writers and conjuncts compute what
  the interpreted ones do, let the writes of different slots be independent, let no
  conjunct read a slot that is scheduled after it, and let the template tuple be there
  iff partition keys are materialized. Then for every input with a field for every
  materialized slot the generated function
  and \<^verbatim>\<open>WriteCompleteTuple\<close> both return, with the same accept/reject result; and when the
  row is accepted they leave the same tuple bytes, the same row, the same per-slot error
  flags and the same error-in-row flag.
\<close>

theorem generated_writer_agrees_on_accepted_rows:
  assumes built: "CodegenWriteCompleteTuple (scan_node s) codegen cs = Inr (Some f)"
    and cs: "conjuncts s = Some cs"
    and agree: "compiled_forms_agree s codegen cs"
    and ind: "slot_writes_independent s"
    and ord: "materialize_order_ok s cs"
    and tmpl: "(tt = None) = (num_materialized_partition_keys (scan_node s) = 0)"
    and fl: "length (materialized_slots (scan_node s)) \<le> length flds"
  shows "\<exists>r m1 m2. WriteCompleteTuple s flds tt m = Inr (r, m1)
             \<and> call_WriteCompleteTuple_fn f flds tt m = Inr (r, m2)
             \<and> (r \<longrightarrow> m2 = m1)"
proof -
  let ?node = "scan_node s"
  let ?n = "length (materialized_slots ?node)"
  let ?tidx = "tuple_idx ?node"
  let ?order = "materialize_order ?node"
  from CodegenWriteCompleteTuple_Some [OF built] obtain cfns sfns where
    cf: "conjunct_fns cs = Inr (Some cfns)" and sf: "slot_fns codegen (materialized_slots ?node) = Some sfns"
    and init: "fn_init f = (if num_materialized_partition_keys ?node = 0
                     then ZeroNullBytes (num_null_bytes ?node) else MemcpyTemplate (byte_size ?node))"
    and idx: "fn_tuple_idx f = ?tidx" and fs: "fn_slot_fns f = sfns" and fc: "fn_conjunct_fns f = cfns"
    and body: "fn_body f = parse_blocks ?order (length cs) 0"
    by blast
  have slot_agree: "(fn_slot_fns f ! i) t data l =
            WriteSlot (text_converter s) (materialized_slots ?node ! i) t data
              (if sint l < 0 then - l else l)
              (stream_compact_data (scanner_context s)) (sint l < 0)"
    if i: "i < ?n" for i t data l
  proof -
    from slot_fns_Some [OF sf] i
    have c: "CodegenWriteSlot codegen (materialized_slots ?node ! i) = Some (sfns ! i)" by blast
    from i have mem: "materialized_slots ?node ! i \<in> set (materialized_slots ?node)" by simp
    from agree mem c show ?thesis unfolding compiled_forms_agree_def fs by blast
  qed
  have cfn: "fn_conjunct_fns f ! j = eval (cs ! j)" if j: "j < length cs" for j
  proof -
    from conjunct_fns_Some [OF cf] j have c: "codegen_fn (cs ! j) = Some (cfns ! j)" by blast
    from j have mem: "cs ! j \<in> set cs" by simp
    from agree mem c show ?thesis unfolding compiled_forms_agree_def fc by blast
  qed
  let ?t0 = "InitTuple s tt (tuple m)"
  let ?st = "(m\<lparr>tuple := ?t0, tuple_row := SetTuple ?tidx ?t0 (tuple_row m)\<rparr>, False)"
  let ?mi = "m\<lparr>error_in_row := 0, tuple := ?t0\<rparr>"
  have call: "call_WriteCompleteTuple_fn f flds tt m = Inr (run_blocks f flds (fn_body f) ?st)"
  proof (cases tt)
    case None
    with tmpl init show ?thesis
      by (simp add: call_WriteCompleteTuple_fn_def InitTuple_def idx)
  next
    case (Some tpl)
    with tmpl init show ?thesis
      by (simp add: call_WriteCompleteTuple_fn_def InitTuple_def idx)
  qed
  have rel: "writers_related ?tidx (tuple_row m) ?st ?mi"
    by (simp add: writers_related_def)
  define full where
    "full = fold (write_slot_step s flds)
              (concat (map (slots_for ?order) [0..<Suc (length cs)])) ?mi"
  define res where "res = run_blocks f flds (parse_blocks ?order (length cs) 0) ?st"
  from run_blocks_related
    [where k = 0 and r = "length cs" and flds = flds, OF idx slot_agree cfn ord rel]
  have ret: "fst res = (\<forall>j. 0 \<le> j \<and> j < length cs \<longrightarrow>
            eval (cs ! j) (SetTuple ?tidx (tuple full) (tuple_row m)))"
    and mem: "fst res \<longrightarrow> snd res = full\<lparr>tuple_row := SetTuple ?tidx (tuple full) (tuple_row m)\<rparr>"
    unfolding full_def res_def by simp_all
  from ord have len: "length ?order = ?n"
    and le: "\<forall>i < ?n. ?order ! i \<le> length cs"
    by (simp_all add: materialize_order_ok_def)
  have perm: "fold (write_slot_step s flds) [0..<?n] ?mi = full"
    unfolding full_def by (rule interpreted_in_generated_order [OF ind len le])
  have m2: "mem_before s flds tt m ?n = full"
    unfolding mem_before_def perm [symmetric] by simp
  define m3 where "m3 = full\<lparr>tuple_row := SetTuple ?tidx (tuple full) (tuple_row full)\<rparr>"
  have interp: "WriteCompleteTuple s flds tt m = Inr (EvalConjuncts cs (tuple_row m3), m3)"
    using WriteCompleteTuple_unfold [OF cs, of flds tt m] unfolding m2 m3_def by (simp add: Let_def)
  have row: "tuple_row full = tuple_row m"
    using mem_before_tuple_row [of s flds tt m ?n] unfolding m2 .
  have ev: "EvalConjuncts cs (tuple_row m3) = fst res"
    unfolding ret m3_def by (simp add: EvalConjuncts_def list_all_length row)
  have c2: "call_WriteCompleteTuple_fn f flds tt m = Inr (EvalConjuncts cs (tuple_row m3), snd res)"
    unfolding call body ev res_def by simp
  have "fst res \<longrightarrow> snd res = m3"
    unfolding m3_def using mem row by simp
  then have same: "EvalConjuncts cs (tuple_row m3) \<longrightarrow> snd res = m3"
    unfolding ev .
  from interp c2 same show ?thesis by blast
qed

lemma demo_built:
  "CodegenWriteCompleteTuple (scan_node demo_scanner) demo_codegen [demo_conjunct] = Inr (Some demo_fn)"
  by (simp add: CodegenWriteCompleteTuple_def FinalizeFunction_def slots_for_def upt_2
      demo_scanner_def demo_node_def demo_slots_def demo_conjunct_def demo_codegen_def demo_fn_def
      fun_eq_iff)

lemma demo_WriteSlot_success:
  "fst (demo_WriteSlot d t data l c e) = fst (demo_WriteSlot d t' data l c e)"
  by (simp add: demo_WriteSlot_def split: list.splits)

lemma demo_compiled_forms_agree: "compiled_forms_agree demo_scanner demo_codegen [demo_conjunct]"
  by (auto simp add: compiled_forms_agree_def demo_scanner_def demo_node_def demo_context_def
      demo_conjunct_def demo_codegen_def demo_slot_fn_def fun_eq_iff)

lemma demo_slot_writes_independent: "slot_writes_independent demo_scanner"
  unfolding slot_writes_independent_def
proof (intro conjI allI impI)
  fix i t t' data l esc
  show "fst (WriteSlot (text_converter demo_scanner) (materialized_slots (scan_node demo_scanner) ! i)
              t data l (stream_compact_data (scanner_context demo_scanner)) esc)
      = fst (WriteSlot (text_converter demo_scanner) (materialized_slots (scan_node demo_scanner) ! i)
              t' data l (stream_compact_data (scanner_context demo_scanner)) esc)"
    by (simp add: demo_scanner_def demo_WriteSlot_success)
next
  fix i j t data l esc data' l' esc'
  assume i: "i < length (materialized_slots (scan_node demo_scanner))"
    and j: "j < length (materialized_slots (scan_node demo_scanner))" and ne: "i \<noteq> j"
  from i j ne have "(i = 0 \<and> j = 1) \<or> (i = 1 \<and> j = 0)"
    by (auto simp add: demo_scanner_def demo_node_def demo_slots_def less_Suc_eq)
  then show "snd (WriteSlot (text_converter demo_scanner) (materialized_slots (scan_node demo_scanner) ! i)
                  (snd (WriteSlot (text_converter demo_scanner)
                          (materialized_slots (scan_node demo_scanner) ! j) t
                          data' l' (stream_compact_data (scanner_context demo_scanner)) esc'))
                  data l (stream_compact_data (scanner_context demo_scanner)) esc)
           = snd (WriteSlot (text_converter demo_scanner) (materialized_slots (scan_node demo_scanner) ! j)
                  (snd (WriteSlot (text_converter demo_scanner)
                          (materialized_slots (scan_node demo_scanner) ! i) t
                          data l (stream_compact_data (scanner_context demo_scanner)) esc))
                  data' l' (stream_compact_data (scanner_context demo_scanner)) esc')"
    by (auto simp add: demo_scanner_def demo_node_def demo_slots_def demo_WriteSlot_def
        list_update_swap split: list.splits)
qed

lemma demo_materialize_order_ok: "materialize_order_ok demo_scanner [demo_conjunct]"
  unfolding materialize_order_ok_def
proof (intro conjI allI impI)
  show "length (materialize_order (scan_node demo_scanner))
      = length (materialized_slots (scan_node demo_scanner))"
    by (simp add: demo_scanner_def demo_node_def demo_slots_def)
next
  fix i assume "i < length (materialized_slots (scan_node demo_scanner))"
  then show "materialize_order (scan_node demo_scanner) ! i \<le> length [demo_conjunct]"
    by (auto simp add: demo_scanner_def demo_node_def demo_slots_def less_Suc_eq)
next
  fix k i row t data l esc
  assume k: "k < length [demo_conjunct]"
    and i: "i < length (materialized_slots (scan_node demo_scanner))"
    and later: "k < materialize_order (scan_node demo_scanner) ! i"
  from k have k0: "k = 0" by simp
  from i later k0 have i1: "i = 1"
    by (auto simp add: demo_scanner_def demo_node_def demo_slots_def less_Suc_eq)
  show "eval ([demo_conjunct] ! k)
          (SetTuple (tuple_idx (scan_node demo_scanner))
             (snd (WriteSlot (text_converter demo_scanner)
                     (materialized_slots (scan_node demo_scanner) ! i) t
                     data l (stream_compact_data (scanner_context demo_scanner)) esc)) row)
      = eval ([demo_conjunct] ! k) (SetTuple (tuple_idx (scan_node demo_scanner)) t row)"
    unfolding k0 i1
    by (cases row)
       (auto simp add: demo_scanner_def demo_node_def demo_slots_def demo_conjunct_def
          demo_WriteSlot_def demo_gt5_def SetTuple_def split: list.splits)
qed

theorem generated_writer_agrees_on_accepted_rows_witness:
  "CodegenWriteCompleteTuple (scan_node demo_scanner) demo_codegen [demo_conjunct] = Inr (Some demo_fn)
   \<and> conjuncts demo_scanner = Some [demo_conjunct]
   \<and> compiled_forms_agree demo_scanner demo_codegen [demo_conjunct]
   \<and> slot_writes_independent demo_scanner
   \<and> materialize_order_ok demo_scanner [demo_conjunct]
   \<and> ((None :: Tuple option) = None) = (num_materialized_partition_keys (scan_node demo_scanner) = 0)
   \<and> length (materialized_slots (scan_node demo_scanner)) \<le> length demo_fields
   \<and> WriteCompleteTuple demo_scanner demo_fields None demo_mem
       = Inr (True, \<lparr>tuple = [0, 55, 0], tuple_row = [Some [0, 55, 0]],
                     error_fields = [0, 1], error_in_row = 1\<rparr>)
   \<and> call_WriteCompleteTuple_fn demo_fn demo_fields None demo_mem
       = Inr (True, \<lparr>tuple = [0, 55, 0], tuple_row = [Some [0, 55, 0]],
                     error_fields = [0, 1], error_in_row = 1\<rparr>)"
proof -
  have h2: "conjuncts demo_scanner = Some [demo_conjunct]"
    by (simp add: demo_scanner_def)
  have h6: "((None :: Tuple option) = None) = (num_materialized_partition_keys (scan_node demo_scanner) = 0)"
    by (simp add: demo_scanner_def demo_node_def)
  have h7: "length (materialized_slots (scan_node demo_scanner)) \<le> length demo_fields"
    by (simp add: demo_defs)
  have run: "WriteCompleteTuple demo_scanner demo_fields None demo_mem
       = Inr (True, \<lparr>tuple = [0, 55, 0], tuple_row = [Some [0, 55, 0]],
                     error_fields = [0, 1], error_in_row = 1\<rparr>)"
    by (simp add: WriteCompleteTuple_def write_slot_step_def InitTuple_def memset0_def
        EvalConjuncts_def SetTuple_def demo_defs upt_2 Let_def)
  from generated_writer_agrees_on_accepted_rows
    [OF demo_built h2 demo_compiled_forms_agree demo_slot_writes_independent
        demo_materialize_order_ok h6 h7, of demo_mem]
  obtain r m1 m2 where
    a: "WriteCompleteTuple demo_scanner demo_fields None demo_mem = Inr (r, m1)" and
    b: "call_WriteCompleteTuple_fn demo_fn demo_fields None demo_mem = Inr (r, m2)" and
    c: "r \<longrightarrow> m2 = m1"
    by blast
  from a run have "r = True" and "m1 = \<lparr>tuple = [0, 55, 0], tuple_row = [Some [0, 55, 0]],
                     error_fields = [0, 1], error_in_row = 1\<rparr>"
    by simp_all
  with b c have gen: "call_WriteCompleteTuple_fn demo_fn demo_fields None demo_mem
       = Inr (True, \<lparr>tuple = [0, 55, 0], tuple_row = [Some [0, 55, 0]],
                     error_fields = [0, 1], error_in_row = 1\<rparr>)"
    by simp
  from demo_built h2 demo_compiled_forms_agree demo_slot_writes_independent
    demo_materialize_order_ok h6 h7 run gen
  show ?thesis by blast
qed

text \<open>
  The claim as the spec words it (the same tuple bytes and error flags for every input)
  fails on a rejected row. The generated function returns at the rejecting conjunct: the
  slots scheduled after it are not written, their flags are not stored, and the
  error-in-row flag is not stored. On the fields \<open>3\<close> and \<open>abc\<close> the interpreted writer
  leaves the string slot written and the generated one does not; on \<open>3\<close> and an empty
  field the interpreted writer flags the second slot and the row, and the generated one
  flags neither.
\<close>

theorem generated_writer_rejected_row_counterexample:
  "CodegenWriteCompleteTuple (scan_node demo_scanner) demo_codegen [demo_conjunct] = Inr (Some demo_fn)
   \<and> WriteCompleteTuple demo_scanner demo_rejected_fields None demo_clean_mem
       = Inr (False, \<lparr>tuple = [0, 51, 97], tuple_row = [Some [0, 51, 97]],
                      error_fields = [0, 0], error_in_row = 0\<rparr>)
   \<and> call_WriteCompleteTuple_fn demo_fn demo_rejected_fields None demo_clean_mem
       = Inr (False, \<lparr>tuple = [0, 51, 0], tuple_row = [Some [0, 51, 0]],
                      error_fields = [0, 0], error_in_row = 0\<rparr>)
   \<and> WriteCompleteTuple demo_scanner demo_rejected_malformed_fields None demo_clean_mem
       = Inr (False, \<lparr>tuple = [0, 51, 0], tuple_row = [Some [0, 51, 0]],
                      error_fields = [0, 1], error_in_row = 1\<rparr>)
   \<and> call_WriteCompleteTuple_fn demo_fn demo_rejected_malformed_fields None demo_clean_mem
       = Inr (False, \<lparr>tuple = [0, 51, 0], tuple_row = [Some [0, 51, 0]],
                      error_fields = [0, 0], error_in_row = 0\<rparr>)"
proof -
  have i1: "WriteCompleteTuple demo_scanner demo_rejected_fields None demo_clean_mem
       = Inr (False, \<lparr>tuple = [0, 51, 97], tuple_row = [Some [0, 51, 97]],
                      error_fields = [0, 0], error_in_row = 0\<rparr>)"
    by (simp add: WriteCompleteTuple_def write_slot_step_def InitTuple_def memset0_def
        EvalConjuncts_def SetTuple_def demo_defs upt_2 Let_def)
  have g1: "call_WriteCompleteTuple_fn demo_fn demo_rejected_fields None demo_clean_mem
       = Inr (False, \<lparr>tuple = [0, 51, 0], tuple_row = [Some [0, 51, 0]],
                      error_fields = [0, 0], error_in_row = 0\<rparr>)"
    by (simp add: call_WriteCompleteTuple_fn_def fused_slot_step_def memset0_def
        SetTuple_def demo_defs)
  have i2: "WriteCompleteTuple demo_scanner demo_rejected_malformed_fields None demo_clean_mem
       = Inr (False, \<lparr>tuple = [0, 51, 0], tuple_row = [Some [0, 51, 0]],
                      error_fields = [0, 1], error_in_row = 1\<rparr>)"
    by (simp add: WriteCompleteTuple_def write_slot_step_def InitTuple_def memset0_def
        EvalConjuncts_def SetTuple_def demo_defs upt_2 Let_def)
  have g2: "call_WriteCompleteTuple_fn demo_fn demo_rejected_malformed_fields None demo_clean_mem
       = Inr (False, \<lparr>tuple = [0, 51, 0], tuple_row = [Some [0, 51, 0]],
                      error_fields = [0, 0], error_in_row = 0\<rparr>)"
    by (simp add: call_WriteCompleteTuple_fn_def fused_slot_step_def memset0_def
        SetTuple_def demo_defs)
  from demo_built i1 g1 i2 g2 show ?thesis by blast
qed

end
